theory Spec2Isabelle
  imports Main
begin

section \<open>Text and regular expressions\<close>

text \<open>
  A text is a list of code units; the model covers texts whose code units are below 256.
  The source scans texts with five regular expressions. They are embedded as terms of the
  datatype \<open>re\<close> and run by a backtracking matcher that returns every way of matching, in
  the order in which a backtracking engine tries them (greedy quantifiers first take as
  much as they can): the head of that list is the match the engine reports.
\<close>

definition isSpace :: "char \<Rightarrow> bool" where
  \<comment> \<open>the class \<open>\s\<close>, for code units below 256\<close>
  "isSpace c = (c \<in> {CHR 0x09, CHR 0x0A, CHR 0x0B, CHR 0x0C, CHR 0x0D, CHR 0x20, CHR 0xA0})"

definition isWord :: "char \<Rightarrow> bool" where
  \<comment> \<open>the class \<open>\w\<close>\<close>
  "isWord c = (let n = of_char c :: nat in
     (48 \<le> n \<and> n \<le> 57) \<or> (65 \<le> n \<and> n \<le> 90) \<or> (97 \<le> n \<and> n \<le> 122) \<or> n = 95)"

definition isNameChar :: "char \<Rightarrow> bool" where
  \<comment> \<open>the class \<open>[\w-]\<close>\<close>
  "isNameChar c = (isWord c \<or> c = CHR ''-'')"

definition notRParen :: "char \<Rightarrow> bool" where
  \<comment> \<open>the class \<open>[^)]\<close>\<close>
  "notRParen c = (c \<noteq> CHR '')'')"

definition notDeclEnd :: "char \<Rightarrow> bool" where
  \<comment> \<open>the class \<open>[^;{}]\<close>\<close>
  "notDeclEnd c = (c \<noteq> CHR '';'' \<and> c \<noteq> CHR ''{'' \<and> c \<noteq> CHR ''}'')"

datatype re =
    Str string                \<comment> \<open>a literal string\<close>
  | Many "char \<Rightarrow> bool"        \<comment> \<open>\<open>[c]*\<close>, greedy\<close>
  | Many1 "char \<Rightarrow> bool"       \<comment> \<open>\<open>[c]+\<close>, greedy\<close>
  | Seq re re
  | Opt re                    \<comment> \<open>\<open>(?:r)?\<close>, greedy\<close>
  | Grp nat re                \<comment> \<open>capture group number n\<close>
  | Eos                       \<comment> \<open>\<open>$\<close>\<close>

type_synonym caps = "(nat \<times> string) list"

type_synonym mstate = "string \<times> caps"

fun stripPrefix :: "string \<Rightarrow> string \<Rightarrow> string option" where
  "stripPrefix [] s = Some s"
| "stripPrefix (p # ps) [] = None"
| "stripPrefix (p # ps) (c # cs) = (if p = c then stripPrefix ps cs else None)"

fun run :: "re \<Rightarrow> mstate \<Rightarrow> mstate list" where
  "run (Str p) (s, c) = (case stripPrefix p s of None \<Rightarrow> [] | Some s' \<Rightarrow> [(s', c)])"
| "run (Many P) (s, c) =
     map (\<lambda>k. (drop k s, c)) (rev [0 ..< Suc (length (takeWhile P s))])"
| "run (Many1 P) (s, c) =
     map (\<lambda>k. (drop k s, c)) (rev [1 ..< Suc (length (takeWhile P s))])"
| "run (Seq a b) st = concat (map (run b) (run a st))"
| "run (Opt a) st = run a st @ [st]"
| "run (Grp n a) (s, c) =
     map (\<lambda>(s', c'). (s', (n, take (length s - length s') s) # c')) (run a (s, c))"
| "run Eos (s, c) = (if s = [] then [(s, c)] else [])"

text \<open>One match: where it starts, the matched text, and the capture groups.\<close>

record rmatch =
  index :: nat
  matched :: string
  groups :: caps

definition group :: "rmatch \<Rightarrow> nat \<Rightarrow> string option" where
  "group m n = map_of (groups m) n"

text \<open>The match of \<open>r\<close> that starts exactly at index \<open>i\<close> of \<open>code\<close>, if any.\<close>

definition matchAt :: "re \<Rightarrow> string \<Rightarrow> nat \<Rightarrow> rmatch option" where
  "matchAt r code i =
     (let s = drop i code in
      case run r (s, []) of
        [] \<Rightarrow> None
      | (s', c) # _ \<Rightarrow> Some \<lparr>index = i, matched = take (length s - length s') s, groups = c\<rparr>)"

text \<open>
  \<open>code.matchAll(r)\<close> for a regular expression with the \<open>g\<close> flag: the matches from
  left to right, each search starting where the previous match ended (one further after an
  empty match).
\<close>

function matchAllFrom :: "re \<Rightarrow> string \<Rightarrow> nat \<Rightarrow> rmatch list" where
  "matchAllFrom r code i =
     (if length code < i then []
      else case matchAt r code i of
        None \<Rightarrow> matchAllFrom r code (Suc i)
      | Some m \<Rightarrow>
          m # matchAllFrom r code (if matched m = [] then Suc i else i + length (matched m)))"
  by pat_completeness auto
termination
  by (relation "measure (\<lambda>(r, code, i). Suc (length code) - i)")
    (auto simp: neq_Nil_conv)

definition matchAll :: "re \<Rightarrow> string \<Rightarrow> rmatch list" where
  "matchAll r code = matchAllFrom r code 0"

text \<open>\<open>r.test(code)\<close> for a fresh regular expression: is there a match anywhere.\<close>

definition regexTest :: "re \<Rightarrow> string \<Rightarrow> bool" where
  "regexTest r code = (\<exists>i \<in> set [0 ..< Suc (length code)]. matchAt r code i \<noteq> None)"

text \<open>The same for a regular expression that starts with \<open>^\<close>: only index 0 is tried.\<close>

definition regexTestAnchored :: "re \<Rightarrow> string \<Rightarrow> bool" where
  "regexTestAnchored r code = (matchAt r code 0 \<noteq> None)"

text \<open>
  \<open>code.replace(r, f)\<close> for a regular expression with the \<open>g\<close> flag: the text between
  the matches is kept and each match is replaced by what the callback returns for it.
\<close>

fun splice :: "(rmatch \<Rightarrow> string) \<Rightarrow> string \<Rightarrow> nat \<Rightarrow> rmatch list \<Rightarrow> string" where
  "splice f code pos [] = drop pos code"
| "splice f code pos (m # ms) =
     take (index m - pos) (drop pos code) @ f m @ splice f code (index m + length (matched m)) ms"

definition replaceAll :: "re \<Rightarrow> (rmatch \<Rightarrow> string) \<Rightarrow> string \<Rightarrow> string" where
  "replaceAll r f code = splice f code 0 (matchAll r code)"

text \<open>\<open>/var\(\s*(--[\w-]+)(?:\s*,\s*([^)]+))?\s*\)/g\<close>\<close>

definition VAR_REF_REGEX :: re where
  "VAR_REF_REGEX =
     Seq (Str ''var('') (Seq (Many isSpace)
     (Seq (Grp 1 (Seq (Str ''--'') (Many1 isNameChar)))
     (Seq (Opt (Seq (Many isSpace) (Seq (Str '','') (Seq (Many isSpace) (Grp 2 (Many1 notRParen))))))
     (Seq (Many isSpace) (Str '')'')))))"

text \<open>\<open>/(--[\w-]+)\s*:\s*([^;{}]+);?/g\<close>\<close>

definition VAR_DEF_REGEX :: re where
  "VAR_DEF_REGEX =
     Seq (Grp 1 (Seq (Str ''--'') (Many1 isNameChar)))
     (Seq (Many isSpace) (Seq (Str '':'') (Seq (Many isSpace)
     (Seq (Grp 2 (Many1 notDeclEnd)) (Opt (Str '';''))))))"

text \<open>\<open>/@layer\s+tokens\s*\{/g\<close>\<close>

definition LAYER_TOKENS_REGEX :: re where
  "LAYER_TOKENS_REGEX =
     Seq (Str ''@layer'') (Seq (Many1 isSpace) (Seq (Str ''tokens'') (Seq (Many isSpace) (Str ''{''))))"

text \<open>
  \<open>/^\s*var\(\s*--[\w-]+\s*(?:,\s*[^)]+)?\)\s*$/\<close>, without its leading \<open>^\<close>: it is
  used with \<open>regexTestAnchored\<close>.
\<close>

definition VAR_ONLY_REGEX :: re where
  "VAR_ONLY_REGEX =
     Seq (Many isSpace) (Seq (Str ''var('') (Seq (Many isSpace)
     (Seq (Str ''--'') (Seq (Many1 isNameChar) (Seq (Many isSpace)
     (Seq (Opt (Seq (Str '','') (Seq (Many isSpace) (Many1 notRParen))))
     (Seq (Str '')'') (Seq (Many isSpace) Eos))))))))"

section \<open>Data model\<close>

text \<open>
  The interface \<open>Token\<close>. Its field \<open>value\<close> is \<open>tokenValue\<close> here. \<open>mangledName\<close> and
  \<open>isAlias\<close> are optional fields (\<open>None\<close> is \<open>undefined\<close>); \<open>emitDeclaration\<close> is
  assigned a boolean wherever a token is created or reset.
\<close>

record Token =
  tokenValue :: string
  usageCount :: nat
  setElsewhere :: bool
  mangledName :: "string option"
  isAlias :: "bool option"
  emitDeclaration :: bool

text \<open>
  The registry is a \<open>Map<string, Token>\<close>, which iterates in insertion order: a list of
  entries. \<open>registrySet\<close> is \<open>registry.set\<close> (a new key goes to the end, an old key keeps
  its place); \<open>registryUpdate\<close> is an assignment to fields of the token stored under a key.
\<close>

type_synonym registry = "(string \<times> Token) list"

definition registryGet :: "registry \<Rightarrow> string \<Rightarrow> Token option" where
  "registryGet reg n = map_of reg n"

fun registrySet :: "string \<Rightarrow> Token \<Rightarrow> registry \<Rightarrow> registry" where
  "registrySet n t [] = [(n, t)]"
| "registrySet n t ((k, v) # kvs) =
     (if k = n then (k, t) # kvs else (k, v) # registrySet n t kvs)"

definition registryUpdate :: "string \<Rightarrow> (Token \<Rightarrow> Token) \<Rightarrow> registry \<Rightarrow> registry" where
  "registryUpdate n f reg = map (\<lambda>(k, v). if k = n then (k, f v) else (k, v)) reg"

text \<open>\<open>s.slice(a, b)\<close> and \<open>s.slice(a)\<close> for indices that are not negative, \<open>s.trim()\<close>,
  and the truth value of an optional string (\<open>undefined\<close> and the empty string are false).\<close>

definition slice :: "string \<Rightarrow> nat \<Rightarrow> nat \<Rightarrow> string" where
  "slice s a b = take (b - a) (drop a s)"

definition sliceFrom :: "string \<Rightarrow> nat \<Rightarrow> string" where
  "sliceFrom s a = drop a s"

definition trim :: "string \<Rightarrow> string" where
  "trim s = rev (dropWhile isSpace (rev (dropWhile isSpace s)))"

fun truthy :: "string option \<Rightarrow> bool" where
  "truthy None = False"
| "truthy (Some s) = (s \<noteq> [])"

fun join :: "string \<Rightarrow> string list \<Rightarrow> string" where
  "join sep [] = []"
| "join sep [x] = x"
| "join sep (x # y # ys) = x @ sep @ join sep (y # ys)"

section \<open>Span locator\<close>

definition braceDepth :: "char \<Rightarrow> int \<Rightarrow> int" where
  "braceDepth ch depth =
     (if ch = CHR ''{'' then depth + 1 else if ch = CHR ''}'' then depth - 1 else depth)"

function findMatchingBraceLoop :: "string \<Rightarrow> nat \<Rightarrow> int \<Rightarrow> nat" where
  "findMatchingBraceLoop code i depth =
     (if i < length code then
        (if braceDepth (code ! i) depth = 0 then i
         else findMatchingBraceLoop code (Suc i) (braceDepth (code ! i) depth))
      else length code)"
  by pat_completeness auto
termination
  by (relation "measure (\<lambda>(code, i, depth). length code - i)") auto

definition findMatchingBrace :: "string \<Rightarrow> nat \<Rightarrow> nat" where
  "findMatchingBrace code start = findMatchingBraceLoop code start 1"

text \<open>The interface \<open>LayerSpan\<close>; its field \<open>end\<close> is \<open>endIdx\<close> here.\<close>

record LayerSpan =
  start :: nat
  endIdx :: nat
  content :: string

definition layerOfMatch :: "string \<Rightarrow> rmatch \<Rightarrow> LayerSpan" where
  "layerOfMatch code m =
     (let startIdx = index m;
          contentStart = startIdx + length (matched m);
          contentEnd = findMatchingBrace code contentStart
      in \<lparr>start = startIdx, endIdx = contentEnd + 1,
          content = slice code contentStart contentEnd\<rparr>)"

definition findTokensLayers :: "string \<Rightarrow> LayerSpan list" where
  "findTokensLayers code = map (layerOfMatch code) (matchAll LAYER_TOKENS_REGEX code)"

section \<open>Extractor\<close>

text \<open>
  The body of the inner loop of \<open>extractTokensVariables\<close>. Groups 1 and 2 take part in
  every match of \<open>VAR_DEF_REGEX\<close>, so the last case is never reached.
\<close>

definition extractDeclaration :: "rmatch \<Rightarrow> registry \<Rightarrow> registry" where
  "extractDeclaration m registry =
     (case (group m 1, group m 2) of
        (Some varName, Some varValueRaw) \<Rightarrow>
          (let varValue = trim varValueRaw;
               alias = regexTestAnchored VAR_ONLY_REGEX varValue
           in case registryGet registry varName of
                None \<Rightarrow>
                  registrySet varName
                    \<lparr>tokenValue = varValue, usageCount = 0, setElsewhere = False,
                     mangledName = None, isAlias = Some alias, emitDeclaration = False\<rparr>
                    registry
              | Some v \<Rightarrow>
                  (if isAlias v = None
                   then registryUpdate varName (\<lambda>v. v\<lparr>isAlias := Some alias\<rparr>) registry
                   else registry))
      | _ \<Rightarrow> registry)"

definition extractTokensVariables :: "string \<Rightarrow> registry \<Rightarrow> registry" where
  "extractTokensVariables code registry =
     fold (\<lambda>layer. fold extractDeclaration (matchAll VAR_DEF_REGEX (content layer)))
       (findTokensLayers code) registry"

section \<open>Usage analyzer\<close>

definition blankLayer :: "LayerSpan \<Rightarrow> string \<Rightarrow> string" where
  "blankLayer layer codeWithoutTokens =
     slice codeWithoutTokens 0 (start layer)
     @ replicate (endIdx layer - start layer) CHR '' ''
     @ sliceFrom codeWithoutTokens (endIdx layer)"

definition blankTokensLayers :: "string \<Rightarrow> string" where
  "blankTokensLayers code = fold blankLayer (findTokensLayers code) code"

text \<open>
  \<open>new RegExp(`${escapeRegex(varName)}\\s*:`, "g")\<close>: \<open>escapeRegex\<close> puts a backslash
  before every character that is special in a pattern, so the name matches literally.
\<close>

definition setRegex :: "string \<Rightarrow> re" where
  "setRegex varName = Seq (Str varName) (Seq (Many isSpace) (Str '':''))"

definition markVariablesSetElsewhere :: "string \<Rightarrow> registry \<Rightarrow> registry" where
  "markVariablesSetElsewhere code registry =
     (let codeWithoutTokens = blankTokensLayers code
      in map (\<lambda>(varName, variable).
               if regexTest (setRegex varName) codeWithoutTokens
               then (varName, variable\<lparr>setElsewhere := True\<rparr>)
               else (varName, variable)) registry)"

text \<open>
  \<open>countVariableUsage\<close> calls itself inside its loop over the matches, on the registry and
  the visited set as the earlier iterations left them. The first argument of the model
  bounds the depth of the calls: \<open>None\<close> is a call chain deeper than that.
  \<open>countLoop\<close> is the loop, \<open>recur\<close> the recursive call.
\<close>

fun countLoop ::
  "(string \<Rightarrow> registry \<Rightarrow> string set \<Rightarrow> (registry \<times> string set) option)
   \<Rightarrow> rmatch list \<Rightarrow> registry \<Rightarrow> string set \<Rightarrow> (registry \<times> string set) option" where
  "countLoop recur [] registry visited = Some (registry, visited)"
| "countLoop recur (m # ms) registry visited =
     (case group m 1 of
        None \<Rightarrow> countLoop recur ms registry visited
      | Some varName \<Rightarrow>
         (case registryGet registry varName of
            None \<Rightarrow> countLoop recur ms registry visited
          | Some variable \<Rightarrow>
             (let registry' =
                    registryUpdate varName (\<lambda>v. v\<lparr>usageCount := usageCount v + 1\<rparr>) registry
              in if varName \<notin> visited
                 then (case recur (tokenValue variable) registry' (insert varName visited) of
                         None \<Rightarrow> None
                       | Some (registry'', visited'') \<Rightarrow> countLoop recur ms registry'' visited'')
                 else countLoop recur ms registry' visited)))"

primrec countVariableUsage ::
  "nat \<Rightarrow> string \<Rightarrow> registry \<Rightarrow> string set \<Rightarrow> (registry \<times> string set) option" where
  "countVariableUsage 0 code registry visited = None"
| "countVariableUsage (Suc fuel) code registry visited =
     countLoop (countVariableUsage fuel) (matchAll VAR_REF_REGEX code) registry visited"

definition resetUsageCounts :: "registry \<Rightarrow> registry" where
  "resetUsageCounts registry =
     map (\<lambda>(varName, variable).
            (varName, variable\<lparr>usageCount := 0, mangledName := None, emitDeclaration := False\<rparr>))
       registry"

section \<open>Value resolver\<close>

definition varExpr :: "string option \<Rightarrow> string" where
  \<comment> \<open>the template \<open>`var(${varName})`\<close>\<close>
  "varExpr varName = ''var('' @ (case varName of None \<Rightarrow> ''undefined'' | Some n \<Rightarrow> n) @ '')''"

function resolveVariableValue :: "string option \<Rightarrow> registry \<Rightarrow> nat \<Rightarrow> string" where
  "resolveVariableValue varName registry depth =
     (if 10 < depth then varExpr varName
      else case varName of
        None \<Rightarrow> varExpr varName
      | Some n \<Rightarrow>
        (case registryGet registry n of
          None \<Rightarrow> varExpr varName
        | Some variable \<Rightarrow>
            replaceAll VAR_REF_REGEX
              (\<lambda>m. resolveVariableValue (group m 1) registry (depth + 1))
              (tokenValue variable)))"
  by pat_completeness auto
termination
  by (relation "measure (\<lambda>(varName, registry, depth). 11 - depth)") auto

section \<open>Decision engine\<close>

text \<open>\<open>counter.toString(36)\<close>\<close>

definition digit36 :: "nat \<Rightarrow> char" where
  "digit36 d = ''0123456789abcdefghijklmnopqrstuvwxyz'' ! d"

function toString36 :: "nat \<Rightarrow> string" where
  "toString36 n = (if n < 36 then [digit36 n] else toString36 (n div 36) @ [digit36 (n mod 36)])"
  by pat_completeness auto
termination
  by (relation "measure id") auto

text \<open>
  \<open>valueToVars\<close> is a \<open>Map<string, string[]>\<close>, again a list of entries in insertion
  order. \<open>groupAdd\<close> pushes a name onto the array stored under a resolved value, or stores
  a new array under it.
\<close>

type_synonym valueGroups = "(string \<times> string list) list"

fun groupAdd :: "string \<Rightarrow> string \<Rightarrow> valueGroups \<Rightarrow> valueGroups" where
  "groupAdd resolvedValue varName [] = [(resolvedValue, [varName])]"
| "groupAdd resolvedValue varName ((k, vars) # gs) =
     (if k = resolvedValue then (k, vars @ [varName]) # gs
      else (k, vars) # groupAdd resolvedValue varName gs)"

definition groupByResolvedValue :: "registry \<Rightarrow> valueGroups" where
  "groupByResolvedValue registry =
     fold (\<lambda>(varName, variable) valueToVars.
             if usageCount variable = 0 then valueToVars
             else groupAdd (resolveVariableValue (Some varName) registry 0) varName valueToVars)
       registry []"

text \<open>
  \<open>registry.get(v)!\<close> in the second loop: the names of a group are keys of the registry.
  \<open>notAlias\<close> is \<open>!registry.get(v)!.isAlias\<close>, \<open>usageOf\<close> is \<open>registry.get(v)!.usageCount\<close>.
\<close>

definition notAlias :: "registry \<Rightarrow> string \<Rightarrow> bool" where
  "notAlias registry v =
     (case registryGet registry v of None \<Rightarrow> False | Some t \<Rightarrow> isAlias t \<noteq> Some True)"

definition usageOf :: "registry \<Rightarrow> string \<Rightarrow> nat" where
  "usageOf registry v = (case registryGet registry v of None \<Rightarrow> 0 | Some t \<Rightarrow> usageCount t)"

definition canonicalOf :: "registry \<Rightarrow> string list \<Rightarrow> string option" where
  \<comment> \<open>\<open>varNames.find((v) => !registry.get(v)!.isAlias) ?? varNames[0]\<close>\<close>
  "canonicalOf registry varNames =
     (case find (notAlias registry) varNames of
        Some v \<Rightarrow> Some v
      | None \<Rightarrow> (case varNames of [] \<Rightarrow> None | v # _ \<Rightarrow> Some v))"

definition totalUsageOf :: "registry \<Rightarrow> string list \<Rightarrow> nat" where
  "totalUsageOf registry varNames = fold (\<lambda>vName totalUsage. totalUsage + usageOf registry vName) varNames 0"

definition shouldMangle :: "string \<Rightarrow> string \<Rightarrow> nat \<Rightarrow> bool" where
  "shouldMangle mangled resolvedValue totalUsage =
     (let valueLen = length resolvedValue;
          declarationCost = length mangled + 2 + valueLen + 1;
          referenceCost = 5 + length mangled + 1;
          mangleCost = declarationCost + totalUsage * referenceCost;
          inlineCost = totalUsage * valueLen
      in mangleCost < inlineCost)"

text \<open>The body of the second loop of \<open>generateMangledNames\<close>, on the registry and the counter.\<close>

definition decideGroup ::
  "string \<Rightarrow> string \<times> string list \<Rightarrow> registry \<times> nat \<Rightarrow> registry \<times> nat" where
  "decideGroup manglePrefix grp st =
     (case grp of (resolvedValue, varNames) \<Rightarrow>
      case st of (registry, counter) \<Rightarrow>
       (let canonicalVarName = canonicalOf registry varNames;
            totalUsage = totalUsageOf registry varNames;
            mangled = manglePrefix @ toString36 counter
        in if shouldMangle mangled resolvedValue totalUsage
           then (fold (\<lambda>vName. registryUpdate vName
                         (\<lambda>v. v\<lparr>mangledName := Some mangled,
                                emitDeclaration := (Some vName = canonicalVarName)\<rparr>))
                   varNames registry,
                 counter + 1)
           else (fold (\<lambda>vName. registryUpdate vName
                         (\<lambda>v. v\<lparr>mangledName := None, emitDeclaration := False\<rparr>))
                   varNames registry,
                 counter)))"

definition generateMangledNames :: "registry \<Rightarrow> string \<Rightarrow> registry \<times> nat" where
  "generateMangledNames registry manglePrefix =
     fold (decideGroup manglePrefix) (groupByResolvedValue registry) (registry, 0)"

section \<open>Transformer\<close>

text \<open>
  The body of the loop over the declarations of one tokens layer, on the array
  \<open>declarations\<close> and the set \<open>emittedValues\<close>.
\<close>

definition declarationStep ::
  "registry \<Rightarrow> rmatch \<Rightarrow> string list \<times> string set \<Rightarrow> string list \<times> string set" where
  "declarationStep registry m st =
     (case st of (declarations, emittedValues) \<Rightarrow>
      case (group m 1, group m 2) of
        (Some varName, Some varValue) \<Rightarrow>
          (case registryGet registry varName of
             None \<Rightarrow> st
           | Some variable \<Rightarrow>
               if usageCount variable = 0 then st
               else if setElsewhere variable
               then (declarations @ [varName @ '': '' @ varValue], emittedValues)
               else if truthy (mangledName variable)
               then (let resolvedValue = resolveVariableValue (Some varName) registry 0
                     in if emitDeclaration variable \<and> isAlias variable \<noteq> Some True
                        then (if resolvedValue \<notin> emittedValues
                              then (declarations
                                      @ [(case mangledName variable of None \<Rightarrow> [] | Some mn \<Rightarrow> mn)
                                         @ '': '' @ resolvedValue],
                                    insert resolvedValue emittedValues)
                              else st)
                        else st)
               else st)
      | _ \<Rightarrow> st)"

definition layerDeclarations ::
  "registry \<Rightarrow> LayerSpan \<Rightarrow> string set \<Rightarrow> string list \<times> string set" where
  "layerDeclarations registry layer emittedValues =
     fold (declarationStep registry) (matchAll VAR_DEF_REGEX (content layer)) ([], emittedValues)"

definition layerStep :: "registry \<Rightarrow> LayerSpan \<Rightarrow> string \<times> string set \<Rightarrow> string \<times> string set" where
  "layerStep registry layer st =
     (case st of (result, emittedValues) \<Rightarrow>
      case layerDeclarations registry layer emittedValues of (declarations, emittedValues') \<Rightarrow>
       (let newContent =
              (if 0 < length declarations
               then ''@layer tokens{:root{'' @ join '';'' declarations @ ''}}''
               else [])
        in (slice result 0 (start layer) @ newContent @ sliceFrom result (endIdx layer),
            emittedValues')))"

text \<open>The callback of the final \<open>replace\<close>.\<close>

definition referenceCallback :: "registry \<Rightarrow> rmatch \<Rightarrow> string" where
  "referenceCallback registry m =
     (case group m 1 of
        None \<Rightarrow> matched m
      | Some varName \<Rightarrow>
         (case registryGet registry varName of
            None \<Rightarrow> matched m
          | Some variable \<Rightarrow>
              if truthy (mangledName variable)
              then ''var('' @ (case mangledName variable of None \<Rightarrow> [] | Some mn \<Rightarrow> mn)
                     @ (if truthy (group m 2)
                        then '', '' @ (case group m 2 of None \<Rightarrow> [] | Some fallback \<Rightarrow> fallback)
                        else [])
                     @ '')''
              else if \<not> setElsewhere variable
              then resolveVariableValue (Some varName) registry 0
              else matched m))"

definition transformCode :: "string \<Rightarrow> registry \<Rightarrow> string" where
  "transformCode code registry =
     (let layers = findTokensLayers code;
          result = fst (fold (layerStep registry) (rev layers) (code, {}))
      in replaceAll VAR_REF_REGEX (referenceCallback registry) result)"

section \<open>Orchestrator\<close>

text \<open>
  An entry of the bundle: its \<open>type\<close> and, for an asset, its \<open>source\<close>. The bundle is the
  list of its entries under their file names, in the order of \<open>Object.entries\<close>.
\<close>

record BundleEntry =
  entryType :: string
  source :: string

definition endsWith :: "string \<Rightarrow> string \<Rightarrow> bool" where
  "endsWith s suffix = (length suffix \<le> length s \<and> drop (length s - length suffix) s = suffix)"

definition isCssAsset :: "string \<times> BundleEntry \<Rightarrow> bool" where
  "isCssAsset e = (case e of (name, asset) \<Rightarrow> entryType asset = ''asset'' \<and> endsWith name ''.css'')"

text \<open>
  The single analysis pass: for every file, \<open>markVariablesSetElsewhere\<close> and then
  \<open>countVariableUsage\<close> with a new visited set. The depth bound given to
  \<open>countVariableUsage\<close> is one more than the number of registered names.
\<close>

fun analyze :: "string list \<Rightarrow> registry \<Rightarrow> registry option" where
  "analyze [] registry = Some registry"
| "analyze (code # codes) registry =
     (case countVariableUsage (Suc (length registry)) code
             (markVariablesSetElsewhere code registry) {} of
        None \<Rightarrow> None
      | Some (registry', visited) \<Rightarrow> analyze codes registry')"

definition generateBundle ::
  "string \<Rightarrow> (string \<times> BundleEntry) list \<Rightarrow> (string \<times> BundleEntry) list option" where
  "generateBundle manglePrefix bundle =
     (let cssAssets = filter isCssAsset bundle
      in if length cssAssets = 0 then Some bundle
         else
          (let registry = fold (\<lambda>(name, asset). extractTokensVariables (source asset)) cssAssets []
           in if length registry = 0 then Some bundle
              else
               (case analyze (map (\<lambda>(name, asset). source asset) cssAssets)
                       (resetUsageCounts registry) of
                  None \<Rightarrow> None
                | Some analyzed \<Rightarrow>
                   (let registry' = fst (generateMangledNames analyzed manglePrefix)
                    in Some (map (\<lambda>(name, asset).
                                    if isCssAsset (name, asset)
                                    then (name, asset\<lparr>source := transformCode (source asset) registry'\<rparr>)
                                    else (name, asset))
                               bundle)))))"

section \<open>The cost model as the specification words it\<close>

text \<open>
  These definitions follow the specification's formulas; the theorem on \<open>decideGroup\<close>
  below compares them with what the source computes.
\<close>

definition specDeclarationCost :: "string \<Rightarrow> string \<Rightarrow> nat" where
  "specDeclarationCost syntheticName resolvedValue = length syntheticName + 2 + length resolvedValue + 1"

definition specReferenceCost :: "string \<Rightarrow> nat" where
  "specReferenceCost syntheticName = 5 + length syntheticName + 1"

definition specMangleCost :: "string \<Rightarrow> string \<Rightarrow> nat \<Rightarrow> nat" where
  "specMangleCost syntheticName resolvedValue totalUsage =
     specDeclarationCost syntheticName resolvedValue + totalUsage * specReferenceCost syntheticName"

definition specInlineCost :: "string \<Rightarrow> nat \<Rightarrow> nat" where
  "specInlineCost resolvedValue totalUsage = totalUsage * length resolvedValue"

definition specMangles :: "string \<Rightarrow> string \<Rightarrow> nat \<Rightarrow> bool" where
  "specMangles syntheticName resolvedValue totalUsage =
     (specMangleCost syntheticName resolvedValue totalUsage < specInlineCost resolvedValue totalUsage)"

section \<open>Value resolution as the specification words it\<close>

text \<open>
  The specification's resolution with a count of the levels that may still be expanded:
  with no level left a name resolves to its unexpanded reference expression, as a name
  that is not registered does; otherwise to its declared value with every reference
  replaced by the resolution of the referenced name with one level less.
\<close>

primrec specResolve :: "nat \<Rightarrow> registry \<Rightarrow> string option \<Rightarrow> string" where
  "specResolve 0 registry varName = varExpr varName"
| "specResolve (Suc levels) registry varName =
     (case varName of
        None \<Rightarrow> varExpr varName
      | Some n \<Rightarrow>
         (case registryGet registry n of
            None \<Rightarrow> varExpr varName
          | Some variable \<Rightarrow>
              replaceAll VAR_REF_REGEX (\<lambda>m. specResolve levels registry (group m 1))
                (tokenValue variable)))"

section \<open>Notions for the usage analysis\<close>

text \<open>
  The direct reference occurrences of a name among the matches of \<open>VAR_REF_REGEX\<close> in a
  text: the matches whose first group is that name.
\<close>

definition directReferences :: "string \<Rightarrow> rmatch list \<Rightarrow> nat" where
  "directReferences n ms = length (filter (\<lambda>m. group m 1 = Some n) ms)"

text \<open>
  What the proofs ask of the recursive call that \<open>countLoop\<close> is given: whenever fewer than
  \<open>k\<close> registered names are unvisited it returns, with the same names registered, a visited
  set that has grown, and no usage count lowered.
\<close>

definition counts :: "nat \<Rightarrow> (string \<Rightarrow> registry \<Rightarrow> string set \<Rightarrow> (registry \<times> string set) option) \<Rightarrow> bool" where
  "counts k recur = (\<forall>code reg vis. card (set (map fst reg) - vis) < k \<longrightarrow>
      (\<exists>reg' vis'. recur code reg vis = Some (reg', vis') \<and> map fst reg' = map fst reg \<and> vis \<subseteq> vis'
         \<and> (\<forall>n. usageOf reg n \<le> usageOf reg' n)))"

section \<open>Notions for a stable output\<close>









section \<open>Registry updates\<close>

lemma registryGet_registryUpdate:
  "registryGet (registryUpdate n f reg) k =
     (if k = n then map_option f (registryGet reg k) else registryGet reg k)"
  by (induction reg) (auto simp: registryGet_def registryUpdate_def)

lemma fold_update_mangledName:
  assumes "registryGet reg k = Some t" and "k \<in> set varNames \<or> mangledName t = x"
  shows "\<exists>t'. registryGet
                (fold (\<lambda>vName. registryUpdate vName
                         (\<lambda>v. v\<lparr>mangledName := x, emitDeclaration := e vName\<rparr>)) varNames reg) k
              = Some t' \<and> mangledName t' = x"
  using assms
proof (induction varNames arbitrary: reg t)
  case Nil
  then show ?case by simp
next
  case (Cons a varNames)
  let ?reg = "registryUpdate a (\<lambda>v. v\<lparr>mangledName := x, emitDeclaration := e a\<rparr>) reg"
  show ?case
  proof (cases "k = a")
    case True
    then have "registryGet ?reg k = Some (t\<lparr>mangledName := x, emitDeclaration := e a\<rparr>)"
      using Cons.prems(1) by (simp add: registryGet_registryUpdate)
    from Cons.IH [OF this] show ?thesis by simp
  next
    case False
    then have "registryGet ?reg k = Some t"
      using Cons.prems(1) by (simp add: registryGet_registryUpdate)
    moreover have "k \<in> set varNames \<or> mangledName t = x"
      using Cons.prems(2) False by auto
    ultimately show ?thesis using Cons.IH by simp
  qed
qed

lemma totalUsageOf_sum: "totalUsageOf registry varNames = sum_list (map (usageOf registry) varNames)"
proof -
  have "fold (\<lambda>vName totalUsage. totalUsage + usageOf registry vName) varNames a
        = a + sum_list (map (usageOf registry) varNames)" for a
    by (induction varNames arbitrary: a) auto
  then show ?thesis by (simp add: totalUsageOf_def)
qed

lemma shouldMangle_spec: "shouldMangle n v u = specMangles n v u"
  by (simp add: shouldMangle_def specMangles_def specMangleCost_def specInlineCost_def
      specDeclarationCost_def specReferenceCost_def Let_def)

section \<open>Replacing every match by itself\<close>

lemma matchAt_matched:
  assumes "matchAt r code i = Some m"
  shows "index m = i \<and> matched m = take (length (matched m)) (drop i code)"
  using assms by (auto simp: matchAt_def Let_def split: list.splits)

lemma splice_matched_matchAllFrom:
  "pos \<le> i \<Longrightarrow> splice matched code pos (matchAllFrom r code i) = drop pos code"
proof (induction r code i arbitrary: pos rule: matchAllFrom.induct)
  case (1 r code i)
  show ?case
  proof (cases "length code < i")
    case True
    then show ?thesis by simp
  next
    case False
    show ?thesis
    proof (cases "matchAt r code i")
      case None
      have "pos \<le> Suc i" using "1.prems" by simp
      from "1.IH"(1) [OF False None this] show ?thesis
        using False None by simp
    next
      case (Some m)
      note mm = matchAt_matched [OF Some]
      let ?next = "if matched m = [] then Suc i else i + length (matched m)"
      have "i + length (matched m) \<le> ?next" by simp
      from "1.IH"(2) [OF False Some this] have
        rest: "splice matched code (i + length (matched m)) (matchAllFrom r code ?next)
               = drop (i + length (matched m)) code" .
      have tail: "matched m @ drop (i + length (matched m)) code = drop i code"
      proof -
        have "matched m @ drop (length (matched m)) (drop i code) = drop i code"
          using mm by (metis append_take_drop_id)
        then show ?thesis by (simp add: add.commute)
      qed
      have head: "take (i - pos) (drop pos code) @ drop i code = drop pos code"
      proof -
        have "drop i code = drop (i - pos) (drop pos code)"
          using "1.prems" by simp
        then show ?thesis by (metis append_take_drop_id)
      qed
      have "splice matched code pos (matchAllFrom r code i)
          = take (i - pos) (drop pos code) @ matched m @ drop (i + length (matched m)) code"
        using False Some mm rest by simp
      also have "\<dots> = drop pos code"
        unfolding tail head ..
      finally show ?thesis .
    qed
  qed
qed

lemma replaceAll_matched: "replaceAll r matched code = code"
  using splice_matched_matchAllFrom [of 0 0 code r] by (simp add: replaceAll_def matchAll_def)

lemma splice_cong:
  "(\<And>m. m \<in> set ms \<Longrightarrow> f m = g m) \<Longrightarrow> splice f code pos ms = splice g code pos ms"
  by (induction ms arbitrary: pos) simp_all

lemma replaceAll_cong_sites:
  "(\<And>m. m \<in> set (matchAll r code) \<Longrightarrow> f m = g m) \<Longrightarrow> replaceAll r f code = replaceAll r g code"
  unfolding replaceAll_def by (rule splice_cong)

section \<open>The mangle or inline decision\<close>

text \<open>
  Claim C4. For a value group with its resolved value and member names, the decision engine
  takes as total usage the sum of the members' usage counts and as synthetic name the prefix
  followed by the counter in base 36. It mangles the group exactly when the specification's
  mangle cost is strictly below the inline cost: then every registered member carries the
  synthetic name and the counter advances; otherwise (a tie included) every registered
  member carries no synthetic name and the counter stays.
\<close>

theorem decideGroup_cost_model:
  assumes "v \<in> set varNames" and "registryGet registry v = Some t"
  shows "map_option mangledName
           (registryGet (fst (decideGroup manglePrefix (resolvedValue, varNames) (registry, counter))) v)
         = Some (if specMangles (manglePrefix @ toString36 counter) resolvedValue
                      (sum_list (map (usageOf registry) varNames))
                 then Some (manglePrefix @ toString36 counter) else None)
       \<and> snd (decideGroup manglePrefix (resolvedValue, varNames) (registry, counter))
         = (if specMangles (manglePrefix @ toString36 counter) resolvedValue
                 (sum_list (map (usageOf registry) varNames))
            then counter + 1 else counter)"
proof -
  have "k \<in> set varNames \<or> mangledName t = x" if "k = v" for k x
    using that assms(1) by simp
  then show ?thesis
    using fold_update_mangledName [OF assms(2), of varNames "Some (manglePrefix @ toString36 counter)"]
      fold_update_mangledName [OF assms(2), of varNames None]
    by (auto simp: decideGroup_def Let_def shouldMangle_spec totalUsageOf_sum assms(1))
qed


text \<open>
  A tie: a value of 27 characters used twice costs 54 either way, and the group is inlined.
\<close>

theorem decideGroup_cost_model_witness:
  "''--a'' \<in> set [''--a'']
   \<and> registryGet [(''--a'', \<lparr>tokenValue = ''123456789012345678901234567'', usageCount = 2,
          setElsewhere = False, mangledName = None, isAlias = Some False,
          emitDeclaration = False\<rparr>)] ''--a''
       = Some \<lparr>tokenValue = ''123456789012345678901234567'', usageCount = 2,
          setElsewhere = False, mangledName = None, isAlias = Some False,
          emitDeclaration = False\<rparr>
   \<and> specMangleCost ''--_0'' ''123456789012345678901234567'' 2 = 54
   \<and> specInlineCost ''123456789012345678901234567'' 2 = 54
   \<and> map_option mangledName
         (registryGet (fst (decideGroup ''--_'' (''123456789012345678901234567'', [''--a''])
            ([(''--a'', \<lparr>tokenValue = ''123456789012345678901234567'', usageCount = 2,
                 setElsewhere = False, mangledName = None, isAlias = Some False,
                 emitDeclaration = False\<rparr>)], 0))) ''--a'')
       = Some None"
  using decideGroup_cost_model [of "''--a''" "[''--a'']"
      "[(''--a'', \<lparr>tokenValue = ''123456789012345678901234567'', usageCount = 2,
          setElsewhere = False, mangledName = None, isAlias = Some False,
          emitDeclaration = False\<rparr>)]"
      "\<lparr>tokenValue = ''123456789012345678901234567'', usageCount = 2,
          setElsewhere = False, mangledName = None, isAlias = Some False,
          emitDeclaration = False\<rparr>"
      "''--_''" "''123456789012345678901234567''" 0]
  by (simp add: registryGet_def usageOf_def specMangles_def specMangleCost_def specInlineCost_def
      specDeclarationCost_def specReferenceCost_def digit36_def)

section \<open>The threshold example: the value \<open>#ff0000\<close>\<close>

lemma no_refs_hex: "matchAll VAR_REF_REGEX ''#ff0000'' = []"
  by code_simp

lemma resolve_hex:
  "registryGet registry n = Some t \<Longrightarrow> tokenValue t = ''#ff0000'' \<Longrightarrow>
   resolveVariableValue (Some n) registry 0 = ''#ff0000''"
  by (simp add: replaceAll_def no_refs_hex)

lemma shouldMangle_hex: "\<not> shouldMangle (''--_'' @ suffix) ''#ff0000'' totalUsage"
proof -
  define m where "m = ''--_'' @ suffix"
  have len7: "length ''#ff0000'' = 7"
    by simp
  have "totalUsage * 7 \<le> totalUsage * (5 + length m + 1)"
    by (rule mult_le_mono2) (simp add: m_def)
  then show ?thesis
    unfolding shouldMangle_def Let_def len7 m_def [symmetric] by linarith
qed

lemma fifty_uses_decision:
  "generateMangledNames [(''--c'', \<lparr>tokenValue = ''#ff0000'', usageCount = 50, setElsewhere = False,
          mangledName = None, isAlias = Some False, emitDeclaration = False\<rparr>)] ''--_''
   = ([(''--c'', \<lparr>tokenValue = ''#ff0000'', usageCount = 50, setElsewhere = False,
          mangledName = None, isAlias = Some False, emitDeclaration = False\<rparr>)], 0)"
  by code_simp

lemma fifty_uses_transform:
  "transformCode ''@layer tokens{:root{--c:#ff0000}}a{b:var(--c)}''
     [(''--c'', \<lparr>tokenValue = ''#ff0000'', usageCount = 50, setElsewhere = False,
          mangledName = None, isAlias = Some False, emitDeclaration = False\<rparr>)]
   = ''a{b:#ff0000}''"
  by code_simp

text \<open>
  Claim C2 fails for the usage of 50. With the name \<open>--_0\<close> a reference costs 10
  characters and the value 7, so mangling costs 514 and inlining 350: the variable used 50
  times gets no synthetic name, and an asset that declares and uses it is rewritten
  without any declaration, the reference replaced by the value.
\<close>

theorem hex_red_fifty_uses_inlined:
  "specMangleCost ''--_0'' ''#ff0000'' 50 = 514
   \<and> specInlineCost ''#ff0000'' 50 = 350
   \<and> \<not> shouldMangle ''--_0'' ''#ff0000'' 50
   \<and> generateMangledNames [(''--c'', \<lparr>tokenValue = ''#ff0000'', usageCount = 50, setElsewhere = False,
          mangledName = None, isAlias = Some False, emitDeclaration = False\<rparr>)] ''--_''
     = ([(''--c'', \<lparr>tokenValue = ''#ff0000'', usageCount = 50, setElsewhere = False,
          mangledName = None, isAlias = Some False, emitDeclaration = False\<rparr>)], 0)
   \<and> transformCode ''@layer tokens{:root{--c:#ff0000}}a{b:var(--c)}''
       [(''--c'', \<lparr>tokenValue = ''#ff0000'', usageCount = 50, setElsewhere = False,
          mangledName = None, isAlias = Some False, emitDeclaration = False\<rparr>)]
     = ''a{b:#ff0000}''"
  using fifty_uses_decision fifty_uses_transform
  by (simp add: specMangleCost_def specInlineCost_def specDeclarationCost_def
      specReferenceCost_def shouldMangle_def)

text \<open>
  Claim C2 as amended. With the prefix \<open>--_\<close>, a variable that is not set elsewhere and
  whose value is \<open>#ff0000\<close> is inlined whatever its usage count is (1 and 50 included):
  the decision engine gives it no synthetic name and does not advance the counter, its
  declaration in a tokens layer emits nothing, and a reference to it is replaced by
  \<open>#ff0000\<close>.
\<close>

theorem hex_red_always_inlined:
  "generateMangledNames
     [(varName, \<lparr>tokenValue = ''#ff0000'', usageCount = usage, setElsewhere = False,
        mangledName = None, isAlias = Some False, emitDeclaration = False\<rparr>)] ''--_''
   = ([(varName, \<lparr>tokenValue = ''#ff0000'', usageCount = usage, setElsewhere = False,
        mangledName = None, isAlias = Some False, emitDeclaration = False\<rparr>)], 0)
   \<and> declarationStep
       [(varName, \<lparr>tokenValue = ''#ff0000'', usageCount = usage, setElsewhere = False,
        mangledName = None, isAlias = Some False, emitDeclaration = False\<rparr>)]
       \<lparr>index = i, matched = declaration, groups = [(2, ''#ff0000''), (1, varName)]\<rparr>
       (declarations, emittedValues)
     = (declarations, emittedValues)
   \<and> referenceCallback
       [(varName, \<lparr>tokenValue = ''#ff0000'', usageCount = usage, setElsewhere = False,
        mangledName = None, isAlias = Some False, emitDeclaration = False\<rparr>)]
       \<lparr>index = j, matched = original, groups = [(1, varName)]\<rparr>
     = ''#ff0000''"
  by (simp add: generateMangledNames_def groupByResolvedValue_def decideGroup_def
      shouldMangle_hex [simplified] registryUpdate_def declarationStep_def referenceCallback_def
      group_def registryGet_def replaceAll_def no_refs_hex Let_def)


theorem hex_red_always_inlined_witness:
  "referenceCallback [(''--c'', \<lparr>tokenValue = ''#ff0000'', usageCount = 50, setElsewhere = False,
          mangledName = None, isAlias = Some False, emitDeclaration = False\<rparr>)]
     \<lparr>index = 34, matched = ''var(--c)'', groups = [(1, ''--c'')]\<rparr>
   = ''#ff0000''"
  using hex_red_always_inlined [of "''--c''" 50 0 "[]" "[]" "{}" 34 "''var(--c)''"]
  by simp

section \<open>Value resolution\<close>

lemma resolve_levels:
  "resolveVariableValue varName registry depth = specResolve (11 - depth) registry varName"
proof (induction "11 - depth" arbitrary: depth varName)
  case 0
  then have "10 < depth" by simp
  then show ?case using 0 by simp
next
  case (Suc k)
  then have d: "\<not> 10 < depth" and k: "k = 11 - (depth + 1)"
    by simp_all
  have "resolveVariableValue v registry (depth + 1) = specResolve k registry v" for v
    unfolding k by (rule Suc.hyps(1)) (simp add: k)
  then have "(\<lambda>m. resolveVariableValue (group m 1) registry (depth + 1))
      = (\<lambda>m. specResolve k registry (group m 1))"
    by simp
  then show ?case
    using d Suc.hyps(2) [symmetric]
    by (simp split: option.splits del: resolveVariableValue.simps
        add: resolveVariableValue.simps [of varName registry depth])
qed

lemma resolve_beyond_limit:
  "resolveVariableValue (Some ''--a'')
     [(''--a'', \<lparr>tokenValue = ''x var(--a)'', usageCount = 1, setElsewhere = False,
        mangledName = None, isAlias = Some False, emitDeclaration = False\<rparr>)] 11
   = ''var(--a)''"
  by code_simp

lemma resolve_unregistered:
  "resolveVariableValue (Some ''--b'')
     [(''--a'', \<lparr>tokenValue = ''x var(--a)'', usageCount = 1, setElsewhere = False,
        mangledName = None, isAlias = Some False, emitDeclaration = False\<rparr>)] 0
   = ''var(--b)''"
  by code_simp

lemma resolve_self_reference:
  "resolveVariableValue (Some ''--a'')
     [(''--a'', \<lparr>tokenValue = ''x var(--a)'', usageCount = 1, setElsewhere = False,
        mangledName = None, isAlias = Some False, emitDeclaration = False\<rparr>)] 0
   = ''x x x x x x x x x x x var(--a)''"
  by code_simp


lemma fallback_reference:
  "map matched (matchAll VAR_REF_REGEX ''1px var( --x, red )'') = [''var( --x, red )'']"
  by code_simp

lemma fallback_lost_resolve:
  "resolveVariableValue (Some ''--a'')
     [(''--a'', \<lparr>tokenValue = ''1px var( --x, red )'', usageCount = 1, setElsewhere = False,
        mangledName = None, isAlias = Some False, emitDeclaration = False\<rparr>)] 0
   = ''1px var(--x)''"
  by code_simp

lemma fallback_lost_bundle:
  "generateBundle ''--_''
     [(''a.css'', \<lparr>entryType = ''asset'', source =
        ''@layer tokens{:root{--a:1px var(--x, red)}} .b{c:var(--a)}''\<rparr>)]
   = Some [(''a.css'', \<lparr>entryType = ''asset'', source = '' .b{c:1px var(--x)}''\<rparr>)]"
  by code_simp

lemma fallback_kept_bundle:
  "generateBundle ''--_''
     [(''a.css'', \<lparr>entryType = ''asset'', source =
        ''@layer tokens{:root{--a:1px}} .b{c:var(--x, red) var(--a)}''\<rparr>)]
   = Some [(''a.css'', \<lparr>entryType = ''asset'', source = '' .b{c:var(--x, red) 1px}''\<rparr>)]"
  by code_simp

text \<open>
  Claim C6 at a nested reference, written with spaces and a fallback, to a name that is not
  registered. The claim says that such a reference is left as the original reference
  expression. Value resolution replaces \<open>var( --x, red )\<close> by \<open>var(--x)\<close>: its callback
  passes on the name alone, and the fallback is lost, so the pass writes \<open>c:1px var(--x)\<close>.
  The same reference met by the transformer outside a value is kept as it was written.
\<close>

theorem resolveVariableValue_drops_fallback:
  "map matched (matchAll VAR_REF_REGEX ''1px var( --x, red )'') = [''var( --x, red )'']
   \<and> resolveVariableValue (Some ''--a'')
     [(''--a'', \<lparr>tokenValue = ''1px var( --x, red )'', usageCount = 1, setElsewhere = False,
        mangledName = None, isAlias = Some False, emitDeclaration = False\<rparr>)] 0
     = ''1px var(--x)''
   \<and> generateBundle ''--_''
     [(''a.css'', \<lparr>entryType = ''asset'', source =
        ''@layer tokens{:root{--a:1px var(--x, red)}} .b{c:var(--a)}''\<rparr>)]
   = Some [(''a.css'', \<lparr>entryType = ''asset'', source = '' .b{c:1px var(--x)}''\<rparr>)]
   \<and> generateBundle ''--_''
     [(''a.css'', \<lparr>entryType = ''asset'', source =
        ''@layer tokens{:root{--a:1px}} .b{c:var(--x, red) var(--a)}''\<rparr>)]
   = Some [(''a.css'', \<lparr>entryType = ''asset'', source = '' .b{c:var(--x, red) 1px}''\<rparr>)]"
  by (intro conjI) (rule fallback_reference fallback_lost_resolve fallback_lost_bundle
      fallback_kept_bundle)+

text \<open>
  The depth limit. Called at depth 0, value resolution is the specification's resolution
  with 11 levels: the value of the variable itself and ten levels of nested references are
  expanded (at depth \<open>d\<close>, \<open>11 - d\<close> levels are left). Beyond depth 10, and for a name
  that is not registered, it returns the text \<open>var(\<close>name\<open>)\<close>.
\<close>

lemma resolveVariableValue_limits:
  "resolveVariableValue (Some n) registry depth = specResolve (11 - depth) registry (Some n)
   \<and> (10 < depth \<longrightarrow> resolveVariableValue (Some n) registry depth = ''var('' @ n @ '')'')
   \<and> (registryGet registry n = None \<longrightarrow>
        resolveVariableValue (Some n) registry depth = ''var('' @ n @ '')'')"
proof (intro conjI impI)
  show "resolveVariableValue (Some n) registry depth = specResolve (11 - depth) registry (Some n)"
    by (rule resolve_levels)
next
  assume "10 < depth"
  then show "resolveVariableValue (Some n) registry depth = ''var('' @ n @ '')''"
    by (simp add: varExpr_def)
next
  assume "registryGet registry n = None"
  then show "resolveVariableValue (Some n) registry depth = ''var('' @ n @ '')''"
    by (simp add: varExpr_def)
qed

text \<open>
  A variable that refers to itself: the value is expanded at the depths 0 to 10, and the
  reference met at depth 11 is left.
\<close>

lemma resolveVariableValue_limits_example:
  "resolveVariableValue (Some ''--a'')
     [(''--a'', \<lparr>tokenValue = ''x var(--a)'', usageCount = 1, setElsewhere = False,
        mangledName = None, isAlias = Some False, emitDeclaration = False\<rparr>)] 11
   = ''var(--a)''
   \<and> resolveVariableValue (Some ''--b'')
     [(''--a'', \<lparr>tokenValue = ''x var(--a)'', usageCount = 1, setElsewhere = False,
        mangledName = None, isAlias = Some False, emitDeclaration = False\<rparr>)] 0
   = ''var(--b)''
   \<and> resolveVariableValue (Some ''--a'')
     [(''--a'', \<lparr>tokenValue = ''x var(--a)'', usageCount = 1, setElsewhere = False,
        mangledName = None, isAlias = Some False, emitDeclaration = False\<rparr>)] 0
   = ''x x x x x x x x x x x var(--a)''"
  using resolveVariableValue_limits [of "''--a''"
      "[(''--a'', \<lparr>tokenValue = ''x var(--a)'', usageCount = 1, setElsewhere = False,
        mangledName = None, isAlias = Some False, emitDeclaration = False\<rparr>)]" 11]
    resolveVariableValue_limits [of "''--b''"
      "[(''--a'', \<lparr>tokenValue = ''x var(--a)'', usageCount = 1, setElsewhere = False,
        mangledName = None, isAlias = Some False, emitDeclaration = False\<rparr>)]" 0]
    resolve_self_reference resolve_beyond_limit resolve_unregistered
  by blast

section \<open>The declarations pass of the transformer\<close>

lemma declarationStep_grows:
  "set (fst st) \<subseteq> set (fst (declarationStep registry m st))"
  by (cases st) (auto simp: declarationStep_def Let_def split: option.splits)

lemma declarationStep_emitted_grows:
  "snd st \<subseteq> snd (declarationStep registry m st)"
  by (cases st) (auto simp: declarationStep_def Let_def split: option.splits)

lemma fold_declarationStep_grows:
  "set (fst st) \<subseteq> set (fst (fold (declarationStep registry) ms st))"
proof (induction ms arbitrary: st)
  case Nil
  show ?case by simp
next
  case (Cons m ms)
  have "set (fst st) \<subseteq> set (fst (declarationStep registry m st))"
    by (rule declarationStep_grows)
  also have "\<dots> \<subseteq> set (fst (fold (declarationStep registry) ms (declarationStep registry m st)))"
    by (rule Cons.IH)
  finally show ?case by simp
qed

lemma fold_declarationStep_emitted_grows:
  "snd st \<subseteq> snd (fold (declarationStep registry) ms st)"
proof (induction ms arbitrary: st)
  case Nil
  show ?case by simp
next
  case (Cons m ms)
  have "snd st \<subseteq> snd (declarationStep registry m st)"
    by (rule declarationStep_emitted_grows)
  also have "\<dots> \<subseteq> snd (fold (declarationStep registry) ms (declarationStep registry m st))"
    by (rule Cons.IH)
  finally show ?case by simp
qed

lemma declarationStep_setElsewhere:
  assumes "registryGet registry varName = Some variable" and "setElsewhere variable"
    and "0 < usageCount variable" and "group m 1 = Some varName" and "group m 2 = Some varValue"
  shows "declarationStep registry m (declarations, emittedValues)
         = (declarations @ [varName @ '': '' @ varValue], emittedValues)"
  using assms by (simp add: declarationStep_def)

lemma declarationStep_unused:
  assumes "registryGet registry varName = Some variable" and "usageCount variable = 0"
    and "group m 1 = Some varName"
  shows "declarationStep registry m st = st"
  using assms by (cases st) (simp add: declarationStep_def split: option.splits)

lemma kept_layer_matches:
  "matchAll VAR_DEF_REGEX '':root{--a:1;--b:2}''
   = [\<lparr>index = 6, matched = ''--a:1;'', groups = [(2, ''1''), (1, ''--a'')]\<rparr>,
      \<lparr>index = 12, matched = ''--b:2'', groups = [(2, ''2''), (1, ''--b'')]\<rparr>]"
  by code_simp

lemma resolve_long_value:
  "resolveVariableValue (Some ''--a'')
     [(''--a'', \<lparr>tokenValue = ''012345678901234567890123456789'', usageCount = 2,
         setElsewhere = False, mangledName = Some ''--_0'', isAlias = Some False,
         emitDeclaration = True\<rparr>)] 0
   = ''012345678901234567890123456789''"
  by code_simp

subsection \<open>Variables that are set elsewhere\<close>

lemma kept_registry:
  "analyze [''@layer tokens{:root{--a:1}} .b{--a:2}'']
     (resetUsageCounts (extractTokensVariables ''@layer tokens{:root{--a:1}} .b{--a:2}'' []))
   = Some [(''--a'', \<lparr>tokenValue = ''1'', usageCount = 0, setElsewhere = True,
        mangledName = None, isAlias = Some False, emitDeclaration = False\<rparr>)]"
  by code_simp

lemma kept_bundle:
  "generateBundle ''--_''
     [(''a.css'', \<lparr>entryType = ''asset'', source = ''@layer tokens{:root{--a:1}} .b{--a:2}''\<rparr>)]
   = Some [(''a.css'', \<lparr>entryType = ''asset'', source = '' .b{--a:2}''\<rparr>)]"
  by code_simp

lemma kept_value_rewritten:
  "generateBundle ''--_''
     [(''a.css'', \<lparr>entryType = ''asset'', source =
        ''@layer tokens{:root{--b:1;--a:var(--b) x}} .x{--a:2;c:var(--a)}''\<rparr>)]
   = Some [(''a.css'', \<lparr>entryType = ''asset'', source =
        ''@layer tokens{:root{--a: 1 x}} .x{--a:2;c:var(--a)}''\<rparr>)]"
  by code_simp

lemma kept_step_text:
  "fst (layerStep
       [(''--a'', \<lparr>tokenValue = ''1'', usageCount = 0, setElsewhere = False,
           mangledName = None, isAlias = Some False, emitDeclaration = False\<rparr>),
        (''--b'', \<lparr>tokenValue = ''2'', usageCount = 1, setElsewhere = True,
           mangledName = None, isAlias = Some False, emitDeclaration = False\<rparr>)]
       \<lparr>start = 0, endIdx = 33, content = '':root{--a:1;--b:2}''\<rparr>
       (''@layer tokens{:root{--a:1;--b:2}} .x{--b:3;c:var( --b )}'', {}))
   = ''@layer tokens{:root{--b: 2}} .x{--b:3;c:var( --b )}''"
  by code_simp

lemma kept_text_references:
  "matchAll VAR_REF_REGEX ''@layer tokens{:root{--b: 2}} .x{--b:3;c:var( --b )}''
   = [\<lparr>index = 40, matched = ''var( --b )'', groups = [(1, ''--b'')]\<rparr>]"
  by code_simp

text \<open>
  Claim C1 fails in two ways. In the first stylesheet \<open>--a\<close> is declared in the tokens
  layer and assigned outside it, and nothing refers to it: the analysis marks it as set
  elsewhere with a usage count of 0, and the pass removes its declaration in the tokens
  layer, since the test for a usage count of 0 comes before the test for \<open>setElsewhere\<close>.
  In the second stylesheet \<open>--a\<close> is set elsewhere and used, and its declaration is kept
  under its name; but the final replacement of references runs over the kept declaration
  too, and the value text \<open>var(--b) x\<close> is written as \<open>1 x\<close>.
\<close>

theorem setElsewhere_unused_dropped:
  "analyze [''@layer tokens{:root{--a:1}} .b{--a:2}'']
     (resetUsageCounts (extractTokensVariables ''@layer tokens{:root{--a:1}} .b{--a:2}'' []))
   = Some [(''--a'', \<lparr>tokenValue = ''1'', usageCount = 0, setElsewhere = True,
        mangledName = None, isAlias = Some False, emitDeclaration = False\<rparr>)]
   \<and> generateBundle ''--_''
     [(''a.css'', \<lparr>entryType = ''asset'', source = ''@layer tokens{:root{--a:1}} .b{--a:2}''\<rparr>)]
   = Some [(''a.css'', \<lparr>entryType = ''asset'', source = '' .b{--a:2}''\<rparr>)]
   \<and> generateBundle ''--_''
     [(''a.css'', \<lparr>entryType = ''asset'', source =
        ''@layer tokens{:root{--b:1;--a:var(--b) x}} .x{--a:2;c:var(--a)}''\<rparr>)]
   = Some [(''a.css'', \<lparr>entryType = ''asset'', source =
        ''@layer tokens{:root{--a: 1 x}} .x{--a:2;c:var(--a)}''\<rparr>)]"
  by (intro conjI) (rule kept_registry kept_bundle kept_value_rewritten)+

text \<open>
  Claim C1 as amended. Take a variable that is set elsewhere and has a usage count above 0.
  For every declaration of it in a tokens layer, the text made of its name, \<open>: \<close> and the
  value text as matched is among the declarations emitted for that layer, and the layer is
  rewritten as the collapsed block around those declarations (the final replacement then
  treats references inside the block like any others). When the decision engine gave the
  variable no synthetic name, the final replacement writes, at every reference that names
  the variable, the text of that reference itself; a text whose references all name the
  variable is returned as it is.
\<close>

theorem setElsewhere_kept:
  assumes "registryGet registry varName = Some variable" and "setElsewhere variable"
    and "0 < usageCount variable"
  shows "(m \<in> set (matchAll VAR_DEF_REGEX (content layer)) \<longrightarrow>
            group m 1 = Some varName \<longrightarrow> group m 2 = Some varValue \<longrightarrow>
            varName @ '': '' @ varValue \<in> set (fst (layerDeclarations registry layer emittedValues))
            \<and> fst (layerStep registry layer (result, emittedValues))
              = slice result 0 (start layer)
                @ ''@layer tokens{:root{''
                @ join '';'' (fst (layerDeclarations registry layer emittedValues))
                @ ''}}''
                @ sliceFrom result (endIdx layer))
       \<and> (\<not> truthy (mangledName variable) \<longrightarrow>
            (group r 1 = Some varName \<longrightarrow> referenceCallback registry r = matched r)
            \<and> replaceAll VAR_REF_REGEX (referenceCallback registry) text
              = replaceAll VAR_REF_REGEX
                  (\<lambda>r. if group r 1 = Some varName then matched r else referenceCallback registry r)
                  text
            \<and> ((\<forall>r \<in> set (matchAll VAR_REF_REGEX text). group r 1 = Some varName) \<longrightarrow>
                 replaceAll VAR_REF_REGEX (referenceCallback registry) text = text))"
proof (intro conjI impI)
  assume m: "m \<in> set (matchAll VAR_DEF_REGEX (content layer))"
    and g: "group m 1 = Some varName" "group m 2 = Some varValue"
  from m obtain ms1 ms2 where ms: "matchAll VAR_DEF_REGEX (content layer) = ms1 @ m # ms2"
    by (auto simp: in_set_conv_decomp)
  obtain ds es where st1: "fold (declarationStep registry) ms1 ([], emittedValues) = (ds, es)"
    by (cases "fold (declarationStep registry) ms1 ([], emittedValues)")
  have "varName @ '': '' @ varValue \<in> set (fst (declarationStep registry m (ds, es)))"
    using declarationStep_setElsewhere [OF assms g] by simp
  then have "varName @ '': '' @ varValue
      \<in> set (fst (fold (declarationStep registry) ms2 (declarationStep registry m (ds, es))))"
    using fold_declarationStep_grows by blast
  then show mem: "varName @ '': '' @ varValue
      \<in> set (fst (layerDeclarations registry layer emittedValues))"
    by (simp add: layerDeclarations_def ms st1)
  then have "0 < length (fst (layerDeclarations registry layer emittedValues))"
    by (cases "fst (layerDeclarations registry layer emittedValues)") auto
  then show "fst (layerStep registry layer (result, emittedValues))
      = slice result 0 (start layer)
        @ ''@layer tokens{:root{''
        @ join '';'' (fst (layerDeclarations registry layer emittedValues))
        @ ''}}''
        @ sliceFrom result (endIdx layer)"
    by (cases "layerDeclarations registry layer emittedValues") (simp add: layerStep_def Let_def)
next
  assume un: "\<not> truthy (mangledName variable)"
  have own: "referenceCallback registry r = matched r" if "group r 1 = Some varName" for r
    using that un assms by (simp add: referenceCallback_def)
  {
    assume "group r 1 = Some varName"
    then show "referenceCallback registry r = matched r" by (rule own)
  }
  show "replaceAll VAR_REF_REGEX (referenceCallback registry) text
      = replaceAll VAR_REF_REGEX
          (\<lambda>r. if group r 1 = Some varName then matched r else referenceCallback registry r) text"
    by (rule replaceAll_cong_sites) (simp add: own)
  {
    assume "\<forall>r \<in> set (matchAll VAR_REF_REGEX text). group r 1 = Some varName"
    then have "replaceAll VAR_REF_REGEX (referenceCallback registry) text
        = replaceAll VAR_REF_REGEX matched text"
      by (intro replaceAll_cong_sites) (simp add: own)
    then show "replaceAll VAR_REF_REGEX (referenceCallback registry) text = text"
      by (simp add: replaceAll_matched)
  }
qed

theorem setElsewhere_kept_witness:
  "''--b: 2'' \<in> set (fst (layerDeclarations
       [(''--a'', \<lparr>tokenValue = ''1'', usageCount = 0, setElsewhere = False,
           mangledName = None, isAlias = Some False, emitDeclaration = False\<rparr>),
        (''--b'', \<lparr>tokenValue = ''2'', usageCount = 1, setElsewhere = True,
           mangledName = None, isAlias = Some False, emitDeclaration = False\<rparr>)]
       \<lparr>start = 0, endIdx = 33, content = '':root{--a:1;--b:2}''\<rparr> {}))
   \<and> fst (layerStep
       [(''--a'', \<lparr>tokenValue = ''1'', usageCount = 0, setElsewhere = False,
           mangledName = None, isAlias = Some False, emitDeclaration = False\<rparr>),
        (''--b'', \<lparr>tokenValue = ''2'', usageCount = 1, setElsewhere = True,
           mangledName = None, isAlias = Some False, emitDeclaration = False\<rparr>)]
       \<lparr>start = 0, endIdx = 33, content = '':root{--a:1;--b:2}''\<rparr>
       (''@layer tokens{:root{--a:1;--b:2}} .x{--b:3;c:var( --b )}'', {}))
     = ''@layer tokens{:root{--b: 2}} .x{--b:3;c:var( --b )}''
   \<and> replaceAll VAR_REF_REGEX
       (referenceCallback
         [(''--a'', \<lparr>tokenValue = ''1'', usageCount = 0, setElsewhere = False,
           mangledName = None, isAlias = Some False, emitDeclaration = False\<rparr>),
        (''--b'', \<lparr>tokenValue = ''2'', usageCount = 1, setElsewhere = True,
           mangledName = None, isAlias = Some False, emitDeclaration = False\<rparr>)])
       ''@layer tokens{:root{--b: 2}} .x{--b:3;c:var( --b )}''
     = ''@layer tokens{:root{--b: 2}} .x{--b:3;c:var( --b )}''"
proof -
  have reg: "registryGet
       [(''--a'', \<lparr>tokenValue = ''1'', usageCount = 0, setElsewhere = False,
           mangledName = None, isAlias = Some False, emitDeclaration = False\<rparr>),
        (''--b'', \<lparr>tokenValue = ''2'', usageCount = 1, setElsewhere = True,
           mangledName = None, isAlias = Some False, emitDeclaration = False\<rparr>)] ''--b''
     = Some \<lparr>tokenValue = ''2'', usageCount = 1, setElsewhere = True,
           mangledName = None, isAlias = Some False, emitDeclaration = False\<rparr>"
    by (simp add: registryGet_def)
  have m: "\<lparr>index = 12, matched = ''--b:2'', groups = [(2, ''2''), (1, ''--b'')]\<rparr>
      \<in> set (matchAll VAR_DEF_REGEX (content \<lparr>start = 0, endIdx = 33, content = '':root{--a:1;--b:2}''\<rparr>))"
    by (simp add: kept_layer_matches)
  have refs: "\<forall>r \<in> set (matchAll VAR_REF_REGEX
        ''@layer tokens{:root{--b: 2}} .x{--b:3;c:var( --b )}''). group r 1 = Some ''--b''"
    by (simp add: kept_text_references group_def)
  have se: "setElsewhere \<lparr>tokenValue = ''2'', usageCount = 1, setElsewhere = True,
           mangledName = None, isAlias = Some False, emitDeclaration = False\<rparr>"
    by simp
  have us: "0 < usageCount \<lparr>tokenValue = ''2'', usageCount = 1, setElsewhere = True,
           mangledName = None, isAlias = Some False, emitDeclaration = False\<rparr>"
    by simp
  have un: "\<not> truthy (mangledName \<lparr>tokenValue = ''2'', usageCount = 1, setElsewhere = True,
           mangledName = None, isAlias = Some False, emitDeclaration = False\<rparr>)"
    by simp
  have g1: "group \<lparr>index = 12, matched = ''--b:2'', groups = [(2, ''2''), (1, ''--b'')]\<rparr> 1
      = Some ''--b''"
    by (simp add: group_def)
  have g2: "group \<lparr>index = 12, matched = ''--b:2'', groups = [(2, ''2''), (1, ''--b'')]\<rparr> 2
      = Some ''2''"
    by (simp add: group_def)
  note kept = setElsewhere_kept [OF reg se us, of
      "\<lparr>index = 12, matched = ''--b:2'', groups = [(2, ''2''), (1, ''--b'')]\<rparr>"
      "\<lparr>start = 0, endIdx = 33, content = '':root{--a:1;--b:2}''\<rparr>"
      "''2''" "{}" "''@layer tokens{:root{--a:1;--b:2}} .x{--b:3;c:var( --b )}''"
      "\<lparr>index = 40, matched = ''var( --b )'', groups = [(1, ''--b'')]\<rparr>"
      "''@layer tokens{:root{--b: 2}} .x{--b:3;c:var( --b )}''"]
  note decl = kept [THEN conjunct1, THEN mp, THEN mp, THEN mp, OF m g1 g2, THEN conjunct1]
  note refsame = kept [THEN conjunct2, THEN mp, OF un, THEN conjunct2, THEN conjunct2, THEN mp, OF refs]
  from decl have "''--b: 2'' \<in> set (fst (layerDeclarations
       [(''--a'', \<lparr>tokenValue = ''1'', usageCount = 0, setElsewhere = False,
           mangledName = None, isAlias = Some False, emitDeclaration = False\<rparr>),
        (''--b'', \<lparr>tokenValue = ''2'', usageCount = 1, setElsewhere = True,
           mangledName = None, isAlias = Some False, emitDeclaration = False\<rparr>)]
       \<lparr>start = 0, endIdx = 33, content = '':root{--a:1;--b:2}''\<rparr> {}))"
    by simp
  with kept_step_text refsame show ?thesis
    by (intro conjI)
qed

subsection \<open>Unused variables\<close>

lemma transition_registry:
  "analyze [''@layer tokens{:root{--a:1}} .b{transition:--a 1s}'']
     (resetUsageCounts (extractTokensVariables ''@layer tokens{:root{--a:1}} .b{transition:--a 1s}'' []))
   = Some [(''--a'', \<lparr>tokenValue = ''1'', usageCount = 0, setElsewhere = False,
        mangledName = None, isAlias = Some False, emitDeclaration = False\<rparr>)]"
  by code_simp

lemma transition_bundle:
  "generateBundle ''--_''
     [(''a.css'', \<lparr>entryType = ''asset'', source = ''@layer tokens{:root{--a:1}} .b{transition:--a 1s}''\<rparr>)]
   = Some [(''a.css'', \<lparr>entryType = ''asset'', source = '' .b{transition:--a 1s}''\<rparr>)]"
  by code_simp

text \<open>
  Claim C5 fails where it says that the name appears nowhere in the output. Here \<open>--a\<close>
  is named as a transition property and never referenced with \<open>var\<close>: its usage count
  is 0 and its declaration is removed, but the text outside the tokens layer, with the
  name in it from index 15 on, is left as it is.
\<close>

theorem unused_name_remains:
  "analyze [''@layer tokens{:root{--a:1}} .b{transition:--a 1s}'']
     (resetUsageCounts (extractTokensVariables ''@layer tokens{:root{--a:1}} .b{transition:--a 1s}'' []))
   = Some [(''--a'', \<lparr>tokenValue = ''1'', usageCount = 0, setElsewhere = False,
        mangledName = None, isAlias = Some False, emitDeclaration = False\<rparr>)]
   \<and> generateBundle ''--_''
     [(''a.css'', \<lparr>entryType = ''asset'', source = ''@layer tokens{:root{--a:1}} .b{transition:--a 1s}''\<rparr>)]
   = Some [(''a.css'', \<lparr>entryType = ''asset'', source = '' .b{transition:--a 1s}''\<rparr>)]
   \<and> take 3 (drop 15 '' .b{transition:--a 1s}'') = ''--a''"
  using transition_registry transition_bundle by simp

text \<open>
  Claim C5 as amended. A registered variable whose usage count is 0 after the analysis
  emits no declaration: the declarations of every rewritten tokens layer are those that
  the layer gives once the declarations of that variable are taken out of it.
\<close>

theorem unused_declaration_dropped:
  assumes "registryGet registry varName = Some variable" and "usageCount variable = 0"
  shows "layerDeclarations registry layer emittedValues
         = fold (declarationStep registry)
             (filter (\<lambda>m. group m 1 \<noteq> Some varName) (matchAll VAR_DEF_REGEX (content layer)))
             ([], emittedValues)"
proof -
  have "fold (declarationStep registry) ms st
        = fold (declarationStep registry) (filter (\<lambda>m. group m 1 \<noteq> Some varName) ms) st" for ms st
    by (induction ms arbitrary: st) (simp_all add: declarationStep_unused [OF assms])
  then show ?thesis
    by (simp add: layerDeclarations_def)
qed

theorem unused_declaration_dropped_witness:
  "layerDeclarations
       [(''--a'', \<lparr>tokenValue = ''1'', usageCount = 0, setElsewhere = False,
           mangledName = None, isAlias = Some False, emitDeclaration = False\<rparr>),
        (''--b'', \<lparr>tokenValue = ''2'', usageCount = 1, setElsewhere = True,
           mangledName = None, isAlias = Some False, emitDeclaration = False\<rparr>)]
       \<lparr>start = 0, endIdx = 33, content = '':root{--a:1;--b:2}''\<rparr> {}
   = ([''--b: 2''], {})"
  using unused_declaration_dropped [of
      "[(''--a'', \<lparr>tokenValue = ''1'', usageCount = 0, setElsewhere = False,
           mangledName = None, isAlias = Some False, emitDeclaration = False\<rparr>),
        (''--b'', \<lparr>tokenValue = ''2'', usageCount = 1, setElsewhere = True,
           mangledName = None, isAlias = Some False, emitDeclaration = False\<rparr>)]"
      "''--a''"
      "\<lparr>tokenValue = ''1'', usageCount = 0, setElsewhere = False,
           mangledName = None, isAlias = Some False, emitDeclaration = False\<rparr>"
      "\<lparr>start = 0, endIdx = 33, content = '':root{--a:1;--b:2}''\<rparr>" "{}"]
    kept_layer_matches
  by (simp add: registryGet_def group_def declarationStep_def)

subsection \<open>Mangled groups\<close>

text \<open>
  In a group that is mangled, the decision engine marks exactly the canonical member to
  emit the declaration: the first member that is not an alias, or the first member when
  all are aliases.
\<close>

lemma fold_update_emitDeclaration:
  assumes "registryGet reg k = Some t" and "k \<in> set varNames \<or> emitDeclaration t = e k"
  shows "\<exists>t'. registryGet
                (fold (\<lambda>vName. registryUpdate vName
                         (\<lambda>v. v\<lparr>mangledName := x, emitDeclaration := e vName\<rparr>)) varNames reg) k
              = Some t' \<and> emitDeclaration t' = e k"
  using assms
proof (induction varNames arbitrary: reg t)
  case Nil
  then show ?case by simp
next
  case (Cons a varNames)
  let ?reg = "registryUpdate a (\<lambda>v. v\<lparr>mangledName := x, emitDeclaration := e a\<rparr>) reg"
  show ?case
  proof (cases "k = a")
    case True
    then have "registryGet ?reg k = Some (t\<lparr>mangledName := x, emitDeclaration := e k\<rparr>)"
      using Cons.prems(1) by (simp add: registryGet_registryUpdate)
    from Cons.IH [OF this] show ?thesis by simp
  next
    case False
    then have "registryGet ?reg k = Some t"
      using Cons.prems(1) by (simp add: registryGet_registryUpdate)
    moreover have "k \<in> set varNames \<or> emitDeclaration t = e k"
      using Cons.prems(2) False by auto
    ultimately show ?thesis using Cons.IH by simp
  qed
qed

lemma decideGroup_marks_canonical:
  assumes "v \<in> set varNames" and "registryGet registry v = Some t"
    and "shouldMangle (manglePrefix @ toString36 counter) resolvedValue
           (totalUsageOf registry varNames)"
  shows "map_option emitDeclaration
           (registryGet (fst (decideGroup manglePrefix (resolvedValue, varNames) (registry, counter))) v)
         = Some (Some v = canonicalOf registry varNames)"
proof -
  from fold_update_emitDeclaration
    [where e = "\<lambda>vName. Some vName = canonicalOf registry varNames"
       and x = "Some (manglePrefix @ toString36 counter)" and varNames = varNames,
     OF assms(2)] assms(1)
  show ?thesis
    using assms(3) by (auto simp: decideGroup_def Let_def)
qed

lemma canonicalOf_all_aliases:
  assumes "\<forall>v \<in> set varNames. \<not> notAlias registry v"
  shows "canonicalOf registry varNames = (case varNames of [] \<Rightarrow> None | v # _ \<Rightarrow> Some v)"
proof -
  have "find (notAlias registry) varNames = None"
    using assms by (simp add: find_None_iff)
  then show ?thesis by (simp add: canonicalOf_def)
qed

lemma canonicalOf_not_alias:
  assumes "canonicalOf registry varNames = Some v" and "\<exists>w \<in> set varNames. notAlias registry w"
  shows "notAlias registry v \<and> v \<in> set varNames"
proof -
  from assms(2) obtain w where "find (notAlias registry) varNames = Some w"
    by (cases "find (notAlias registry) varNames") (auto simp: find_None_iff)
  with assms(1) show ?thesis
    by (auto simp: canonicalOf_def find_Some_iff)
qed

lemma alias_registry:
  "map_option (\<lambda>registry. fst (generateMangledNames registry ''--_''))
     (analyze [''@layer tokens{:root{--a:var(--external-long-name)}} .b{c:var(--a);d:var(--a);e:var(--a)}'']
       (resetUsageCounts (extractTokensVariables
          ''@layer tokens{:root{--a:var(--external-long-name)}} .b{c:var(--a);d:var(--a);e:var(--a)}'' [])))
   = Some [(''--a'', \<lparr>tokenValue = ''var(--external-long-name)'', usageCount = 3,
        setElsewhere = False, mangledName = Some ''--_0'', isAlias = Some True,
        emitDeclaration = True\<rparr>)]"
  by code_simp

lemma alias_bundle:
  "generateBundle ''--_''
     [(''a.css'', \<lparr>entryType = ''asset'', source =
        ''@layer tokens{:root{--a:var(--external-long-name)}} .b{c:var(--a);d:var(--a);e:var(--a)}''\<rparr>)]
   = Some [(''a.css'', \<lparr>entryType = ''asset'', source =
        '' .b{c:var(--_0);d:var(--_0);e:var(--_0)}''\<rparr>)]"
  by code_simp

text \<open>
  Claim C3 at a group whose members are all aliases. The claim says that the canonical
  member of such a group, its first member, gets the declaration. Here \<open>--a\<close> is an
  alias of a variable that is not registered. It is alone in its group, used three times,
  mangled to \<open>--_0\<close> and marked by the decision engine as the member that emits the
  declaration; the transformer then emits nothing for it, because it is an alias, and
  still renames the three references: \<open>--_0\<close> is referenced and declared nowhere.
\<close>

theorem alias_group_no_declaration:
  "map_option (\<lambda>registry. fst (generateMangledNames registry ''--_''))
     (analyze [''@layer tokens{:root{--a:var(--external-long-name)}} .b{c:var(--a);d:var(--a);e:var(--a)}'']
       (resetUsageCounts (extractTokensVariables
          ''@layer tokens{:root{--a:var(--external-long-name)}} .b{c:var(--a);d:var(--a);e:var(--a)}'' [])))
   = Some [(''--a'', \<lparr>tokenValue = ''var(--external-long-name)'', usageCount = 3,
        setElsewhere = False, mangledName = Some ''--_0'', isAlias = Some True,
        emitDeclaration = True\<rparr>)]
   \<and> generateBundle ''--_''
     [(''a.css'', \<lparr>entryType = ''asset'', source =
        ''@layer tokens{:root{--a:var(--external-long-name)}} .b{c:var(--a);d:var(--a);e:var(--a)}''\<rparr>)]
   = Some [(''a.css'', \<lparr>entryType = ''asset'', source =
        '' .b{c:var(--_0);d:var(--_0);e:var(--_0)}''\<rparr>)]"
  using alias_registry alias_bundle by simp

text \<open>
  A canonical member that is not an alias. Take a used variable that is not set elsewhere
  and carries a synthetic name. If it is the member of its group marked to emit the
  declaration and is not an alias, then its declaration emits the synthetic name, \<open>: \<close>
  and the resolved value when that value was not yet emitted in this asset, and emits
  nothing when it was; in both cases the value is in the set of emitted values from then
  on, for the rest of the asset. If it is not marked, or is an alias, its declaration
  emits nothing.
\<close>

lemma canonical_declared_once:
  assumes "registryGet registry varName = Some variable" and "0 < usageCount variable"
    and "\<not> setElsewhere variable" and "mangledName variable = Some mn" and "mn \<noteq> []"
    and "group m 1 = Some varName" and "group m 2 = Some varValue"
  shows "(emitDeclaration variable \<and> isAlias variable \<noteq> Some True \<longrightarrow>
            fst (declarationStep registry m st)
              = (if resolveVariableValue (Some varName) registry 0 \<in> snd st then fst st
                 else fst st @ [mn @ '': '' @ resolveVariableValue (Some varName) registry 0])
            \<and> resolveVariableValue (Some varName) registry 0
                \<in> snd (fold (declarationStep registry) ms (declarationStep registry m st)))
       \<and> (\<not> (emitDeclaration variable \<and> isAlias variable \<noteq> Some True) \<longrightarrow>
            declarationStep registry m st = st)"
proof (intro conjI impI)
  assume c: "emitDeclaration variable \<and> isAlias variable \<noteq> Some True"
  show "fst (declarationStep registry m st)
          = (if resolveVariableValue (Some varName) registry 0 \<in> snd st then fst st
             else fst st @ [mn @ '': '' @ resolveVariableValue (Some varName) registry 0])"
    using assms c by (cases st) (simp add: declarationStep_def Let_def del: resolveVariableValue.simps)
  have "resolveVariableValue (Some varName) registry 0 \<in> snd (declarationStep registry m st)"
    using assms c by (cases st) (simp add: declarationStep_def Let_def del: resolveVariableValue.simps)
  then show "resolveVariableValue (Some varName) registry 0
      \<in> snd (fold (declarationStep registry) ms (declarationStep registry m st))"
    using fold_declarationStep_emitted_grows by blast
next
  assume "\<not> (emitDeclaration variable \<and> isAlias variable \<noteq> Some True)"
  then show "declarationStep registry m st = st"
    using assms by (cases st) (auto simp: declarationStep_def Let_def simp del: resolveVariableValue.simps)
qed

lemma canonical_declared_once_example:
  "fst (declarationStep
     [(''--a'', \<lparr>tokenValue = ''012345678901234567890123456789'', usageCount = 2,
         setElsewhere = False, mangledName = Some ''--_0'', isAlias = Some False,
         emitDeclaration = True\<rparr>)]
     \<lparr>index = 6, matched = ''--a:012345678901234567890123456789;'',
        groups = [(2, ''012345678901234567890123456789''), (1, ''--a'')]\<rparr>
     ([], {}))
   = [''--_0: 012345678901234567890123456789'']
   \<and> fst (declarationStep
     [(''--a'', \<lparr>tokenValue = ''012345678901234567890123456789'', usageCount = 2,
         setElsewhere = False, mangledName = Some ''--_0'', isAlias = Some False,
         emitDeclaration = True\<rparr>)]
     \<lparr>index = 6, matched = ''--a:012345678901234567890123456789;'',
        groups = [(2, ''012345678901234567890123456789''), (1, ''--a'')]\<rparr>
     ([''--_0: 012345678901234567890123456789''], {''012345678901234567890123456789''}))
   = [''--_0: 012345678901234567890123456789'']"
  using canonical_declared_once [of
      "[(''--a'', \<lparr>tokenValue = ''012345678901234567890123456789'', usageCount = 2,
         setElsewhere = False, mangledName = Some ''--_0'', isAlias = Some False,
         emitDeclaration = True\<rparr>)]"
      "''--a''"
      "\<lparr>tokenValue = ''012345678901234567890123456789'', usageCount = 2,
         setElsewhere = False, mangledName = Some ''--_0'', isAlias = Some False,
         emitDeclaration = True\<rparr>"
      "''--_0''"
      "\<lparr>index = 6, matched = ''--a:012345678901234567890123456789;'',
        groups = [(2, ''012345678901234567890123456789''), (1, ''--a'')]\<rparr>"
      "''012345678901234567890123456789''" "([], {})" "[]"]
    canonical_declared_once [of
      "[(''--a'', \<lparr>tokenValue = ''012345678901234567890123456789'', usageCount = 2,
         setElsewhere = False, mangledName = Some ''--_0'', isAlias = Some False,
         emitDeclaration = True\<rparr>)]"
      "''--a''"
      "\<lparr>tokenValue = ''012345678901234567890123456789'', usageCount = 2,
         setElsewhere = False, mangledName = Some ''--_0'', isAlias = Some False,
         emitDeclaration = True\<rparr>"
      "''--_0''"
      "\<lparr>index = 6, matched = ''--a:012345678901234567890123456789;'',
        groups = [(2, ''012345678901234567890123456789''), (1, ''--a'')]\<rparr>"
      "''012345678901234567890123456789''"
      "([''--_0: 012345678901234567890123456789''], {''012345678901234567890123456789''})" "[]"]
    resolve_long_value
  by (simp add: registryGet_def group_def del: resolveVariableValue.simps)

section \<open>Blanking the tokens layers\<close>

text \<open>
  Every span starts inside the text and ends at most one past it, so the blanked copy has
  the length of the text, or one more when a span ends one past the text.
\<close>

lemma matchAt_bounds:
  assumes "matchAt r code i = Some m"
  shows "index m = i \<and> length (matched m) \<le> length code - i"
  using assms by (auto simp: matchAt_def Let_def split: list.splits)

lemma matchAllFrom_bounds:
  "m \<in> set (matchAllFrom r code i) \<Longrightarrow>
     i \<le> index m \<and> index m + length (matched m) \<le> length code"
proof (induction r code i rule: matchAllFrom.induct)
  case (1 r code i)
  show ?case
  proof (cases "length code < i")
    case True
    with "1.prems" show ?thesis by simp
  next
    case False
    show ?thesis
    proof (cases "matchAt r code i")
      case None
      with False "1.prems" have "m \<in> set (matchAllFrom r code (Suc i))"
        by simp
      from "1.IH"(1) [OF False None this] show ?thesis by simp
    next
      case (Some m')
      note b = matchAt_bounds [OF Some]
      from False Some "1.prems" have
        "m = m' \<or> m \<in> set (matchAllFrom r code (if matched m' = [] then Suc i else i + length (matched m')))"
        by simp
      then show ?thesis
      proof
        assume "m = m'"
        with b False show ?thesis by auto
      next
        assume "m \<in> set (matchAllFrom r code (if matched m' = [] then Suc i else i + length (matched m')))"
        from "1.IH"(2) [OF False Some this] show ?thesis
          by (simp split: if_splits)
      qed
    qed
  qed
qed

lemma findMatchingBraceLoop_bounds:
  "i \<le> length code \<Longrightarrow>
     i \<le> findMatchingBraceLoop code i depth \<and> findMatchingBraceLoop code i depth \<le> length code"
proof (induction code i depth rule: findMatchingBraceLoop.induct)
  case (1 code i depth)
  show ?case
  proof (cases "i < length code")
    case False
    with "1.prems" show ?thesis by simp
  next
    case True
    show ?thesis
    proof (cases "braceDepth (code ! i) depth = 0")
      case z: True
      with True show ?thesis by simp
    next
      case nz: False
      from True have "Suc i \<le> length code" by simp
      from "1.IH" [OF True nz this] True nz show ?thesis
        by simp
    qed
  qed
qed

lemma layer_bounds:
  assumes "layer \<in> set (findTokensLayers code)"
  shows "start layer < endIdx layer \<and> start layer \<le> length code
         \<and> endIdx layer \<le> Suc (length code)"
proof -
  from assms obtain m where m: "m \<in> set (matchAll LAYER_TOKENS_REGEX code)"
    and layer: "layer = layerOfMatch code m"
    by (auto simp: findTokensLayers_def)
  from m have b: "index m + length (matched m) \<le> length code"
    using matchAllFrom_bounds [of m LAYER_TOKENS_REGEX code 0] by (simp add: matchAll_def)
  from findMatchingBraceLoop_bounds [OF b, of 1] b show ?thesis
    by (simp add: layer layerOfMatch_def Let_def findMatchingBrace_def)
qed

lemma length_blankLayer:
  assumes "start layer \<le> endIdx layer" and "start layer \<le> length c"
  shows "length (blankLayer layer c) = max (endIdx layer) (length c)"
  using assms by (simp add: blankLayer_def slice_def sliceFrom_def)

lemma length_fold_blankLayer:
  assumes "\<forall>layer \<in> set layers. start layer \<le> endIdx layer \<and> start layer \<le> length c"
  shows "length (fold blankLayer layers c) = Max (insert (length c) (endIdx ` set layers))"
  using assms
proof (induction layers arbitrary: c)
  case Nil
  show ?case by simp
next
  case (Cons layer layers)
  have len: "length (blankLayer layer c) = max (endIdx layer) (length c)"
    using Cons.prems by (simp add: length_blankLayer)
  have "\<forall>l \<in> set layers. start l \<le> endIdx l \<and> start l \<le> length (blankLayer layer c)"
    using Cons.prems len by auto
  from Cons.IH [OF this] have
    "length (fold blankLayer (layer # layers) c)
       = Max (insert (max (endIdx layer) (length c)) (endIdx ` set layers))"
    by (simp add: len)
  also have "\<dots> = Max (insert (length c) (endIdx ` set (layer # layers)))"
  proof -
    have "Max (insert (length c) (insert (endIdx layer) (endIdx ` set layers)))
        = max (length c) (Max (insert (endIdx layer) (endIdx ` set layers)))"
      by (rule Max_insert) simp_all
    moreover have "Max (insert (max (endIdx layer) (length c)) (endIdx ` set layers))
        = max (length c) (Max (insert (endIdx layer) (endIdx ` set layers)))"
      by (cases "layers = []") (simp_all add: max.commute max.assoc max.left_commute)
    ultimately show ?thesis by simp
  qed
  finally show ?case .
qed

lemma length_blankTokensLayers:
  "length (blankTokensLayers code)
   = (if \<exists>layer \<in> set (findTokensLayers code). endIdx layer = Suc (length code)
      then Suc (length code) else length code)"
proof -
  have b: "\<forall>layer \<in> set (findTokensLayers code).
      start layer \<le> endIdx layer \<and> start layer \<le> length code"
    using layer_bounds [of _ code] by (simp add: less_imp_le)
  have le: "\<forall>layer \<in> set (findTokensLayers code). endIdx layer \<le> Suc (length code)"
    using layer_bounds [of _ code] by simp
  have len: "length (blankTokensLayers code)
      = Max (insert (length code) (endIdx ` set (findTokensLayers code)))"
    unfolding blankTokensLayers_def by (rule length_fold_blankLayer [OF b])
  show ?thesis
  proof (cases "\<exists>layer \<in> set (findTokensLayers code). endIdx layer = Suc (length code)")
    case True
    then have "Suc (length code) \<in> insert (length code) (endIdx ` set (findTokensLayers code))"
      by force
    moreover have "\<forall>x \<in> insert (length code) (endIdx ` set (findTokensLayers code)).
        x \<le> Suc (length code)"
      using le by auto
    ultimately have "Max (insert (length code) (endIdx ` set (findTokensLayers code)))
        = Suc (length code)"
      by (intro Max_eqI) auto
    with True len show ?thesis by simp
  next
    case False
    then have "\<forall>x \<in> insert (length code) (endIdx ` set (findTokensLayers code)).
        x \<le> length code"
      using le by (auto simp: le_Suc_eq)
    then have "Max (insert (length code) (endIdx ` set (findTokensLayers code))) = length code"
      by (intro Max_eqI) auto
    with False len show ?thesis by simp
  qed
qed

text \<open>
  Claim C7 at a text whose tokens layer is not closed: \<open>findMatchingBrace\<close> returns the
  length of the text, the span ends one past it, and the blanked copy is one character
  longer than the text. (By \<open>length_blankTokensLayers\<close> the copy has the length of the
  text whenever every tokens layer is closed.)
\<close>

theorem blank_unbalanced_longer:
  "findTokensLayers ''a{} @layer tokens{:root{--a:1}''
     = [\<lparr>start = 4, endIdx = 31, content = '':root{--a:1}''\<rparr>]
   \<and> length ''a{} @layer tokens{:root{--a:1}'' = 30
   \<and> length (blankTokensLayers ''a{} @layer tokens{:root{--a:1}'') = 31"
  by code_simp

section \<open>Running the pass again\<close>

















section \<open>Termination and usage counts\<close>

lemma resolve_total: "resolveVariableValue_dom (varName, registry, depth)"
proof (induction "11 - depth" arbitrary: varName depth rule: less_induct)
  case less
  show ?case
  proof (rule accpI)
    fix y
    assume "resolveVariableValue_rel y (varName, registry, depth)"
    then show "resolveVariableValue_dom y"
    proof (cases rule: resolveVariableValue_rel.cases)
      case 1
      then have "11 - (depth + 1) < 11 - depth"
        by simp
      from less [OF this] show ?thesis
        using 1 by simp
    qed
  qed
qed

lemma directReferences_Nil: "directReferences n [] = 0"
  by (simp add: directReferences_def)

lemma directReferences_Cons:
  "directReferences n (m # ms) = (if group m 1 = Some n then 1 else 0) + directReferences n ms"
  by (simp add: directReferences_def)

lemma map_fst_registryUpdate: "map fst (registryUpdate n f reg) = map fst reg"
  by (induction reg) (auto simp: registryUpdate_def)

lemma usageOf_registryUpdate_incr:
  "usageOf (registryUpdate n (\<lambda>v. v\<lparr>usageCount := usageCount v + 1\<rparr>) reg) k
   = (if k = n \<and> registryGet reg n \<noteq> None then usageOf reg k + 1 else usageOf reg k)"
  by (auto simp: usageOf_def registryGet_registryUpdate split: option.splits)

lemma usageOf_registryUpdate_Suc:
  "usageOf (registryUpdate n (\<lambda>v. v\<lparr>usageCount := Suc (usageCount v)\<rparr>) reg) k
   = (if k = n \<and> registryGet reg n \<noteq> None then Suc (usageOf reg k) else usageOf reg k)"
  using usageOf_registryUpdate_incr [of n reg k] by simp

lemma registered_iff: "(registryGet reg n \<noteq> None) = (n \<in> set (map fst reg))"
  by (simp add: registryGet_def map_of_eq_None_iff)

lemma card_unvisited_insert:
  assumes "n \<in> set (map fst reg)" and "n \<notin> vis"
  shows "card (set (map fst reg) - insert n vis) < card (set (map fst reg) - vis)"
proof -
  have "set (map fst reg) - insert n vis \<subset> set (map fst reg) - vis"
    using assms by auto
  then show ?thesis
    by (intro psubset_card_mono) auto
qed

lemma card_unvisited_mono:
  assumes "vis \<subseteq> vis'"
  shows "card (set (map fst reg) - vis') \<le> card (set (map fst reg) - vis)"
  using assms by (intro card_mono) auto

lemma countLoop_returns:
  assumes rec: "counts k recur"
  shows "card (set (map fst reg) - vis) \<le> k \<Longrightarrow>
    \<exists>reg' vis'. countLoop recur ms reg vis = Some (reg', vis') \<and> map fst reg' = map fst reg
       \<and> vis \<subseteq> vis'
       \<and> (\<forall>n. usageOf reg n + (if n \<in> set (map fst reg) then directReferences n ms else 0)
              \<le> usageOf reg' n)"
proof (induction ms arbitrary: reg vis)
  case Nil
  then show ?case by (simp add: directReferences_Nil)
next
  case (Cons m ms)
  show ?case
  proof (cases "group m 1")
    case None
    then have "(if n \<in> set (map fst reg) then directReferences n (m # ms) else 0)
        = (if n \<in> set (map fst reg) then directReferences n ms else 0)" for n
      by (simp add: directReferences_Cons)
    then show ?thesis using Cons.IH [OF Cons.prems] None by simp
  next
    case (Some varName)
    show ?thesis
    proof (cases "registryGet reg varName")
      case None
      then have "varName \<notin> set (map fst reg)"
        using registered_iff [of reg varName] by simp
      then have "(if n \<in> set (map fst reg) then directReferences n (m # ms) else 0)
          = (if n \<in> set (map fst reg) then directReferences n ms else 0)" for n
        using Some by (auto simp: directReferences_Cons)
      then show ?thesis using Cons.IH [OF Cons.prems] Some None by simp
    next
      case (Some variable)
      let ?reg = "registryUpdate varName (\<lambda>v. v\<lparr>usageCount := usageCount v + 1\<rparr>) reg"
      have names: "map fst ?reg = map fst reg"
        by (rule map_fst_registryUpdate)
      have inreg: "varName \<in> set (map fst reg)"
        using registered_iff [of reg varName] Some by simp
      have step: "usageOf reg n + (if n \<in> set (map fst reg) then directReferences n (m # ms) else 0)
          \<le> usageOf ?reg n + (if n \<in> set (map fst reg) then directReferences n ms else 0)" for n
        using \<open>group m 1 = Some varName\<close> Some inreg
        by (auto simp: usageOf_registryUpdate_Suc directReferences_Cons)
      show ?thesis
      proof (cases "varName \<in> vis")
        case True
        have "card (set (map fst ?reg) - vis) \<le> k"
          using Cons.prems names by simp
        from Cons.IH [OF this] obtain reg' vis' where
          r: "countLoop recur ms ?reg vis = Some (reg', vis')" "map fst reg' = map fst ?reg"
            "vis \<subseteq> vis'"
            "\<forall>n. usageOf ?reg n + (if n \<in> set (map fst ?reg) then directReferences n ms else 0)
                  \<le> usageOf reg' n"
          by blast
        have bound: "usageOf reg n + (if n \<in> set (map fst reg) then directReferences n (m # ms) else 0)
            \<le> usageOf reg' n" for n
        proof -
          have "usageOf ?reg n + (if n \<in> set (map fst reg) then directReferences n ms else 0)
              \<le> usageOf reg' n"
            using r(4) unfolding names by blast
          with step [of n] show ?thesis by (rule le_trans)
        qed
        have eq: "countLoop recur (m # ms) reg vis = countLoop recur ms ?reg vis"
          using \<open>group m 1 = Some varName\<close> Some True by (simp add: Let_def)
        show ?thesis
        proof (intro exI conjI allI)
          show "countLoop recur (m # ms) reg vis = Some (reg', vis')"
            unfolding eq by (rule r(1))
          show "map fst reg' = map fst reg"
            using r(2) unfolding names .
          show "vis \<subseteq> vis'" by (rule r(3))
          show "usageOf reg n + (if n \<in> set (map fst reg) then directReferences n (m # ms) else 0)
            \<le> usageOf reg' n" for n by (rule bound)
        qed
      next
        case False
        have "card (set (map fst ?reg) - insert varName vis) < k"
          using card_unvisited_insert [OF inreg False] Cons.prems names by simp
        with rec obtain reg1 vis1 where
          r1: "recur (tokenValue variable) ?reg (insert varName vis) = Some (reg1, vis1)"
            "map fst reg1 = map fst ?reg" "insert varName vis \<subseteq> vis1"
            "\<forall>n. usageOf ?reg n \<le> usageOf reg1 n"
          unfolding counts_def by blast
        have "card (set (map fst reg1) - vis1) \<le> card (set (map fst reg) - vis)"
          using card_unvisited_mono [of vis vis1 reg] r1(3) unfolding r1(2) names by blast
        then have "card (set (map fst reg1) - vis1) \<le> k"
          using Cons.prems by simp
        from Cons.IH [OF this] obtain reg' vis' where
          r: "countLoop recur ms reg1 vis1 = Some (reg', vis')" "map fst reg' = map fst reg1"
            "vis1 \<subseteq> vis'"
            "\<forall>n. usageOf reg1 n + (if n \<in> set (map fst reg1) then directReferences n ms else 0)
                  \<le> usageOf reg' n"
          by blast
        have names1: "map fst reg1 = map fst reg"
          using r1(2) unfolding names .
        have bound: "usageOf reg n + (if n \<in> set (map fst reg) then directReferences n (m # ms) else 0)
            \<le> usageOf reg' n" for n
        proof -
          have a: "usageOf ?reg n + (if n \<in> set (map fst reg) then directReferences n ms else 0)
              \<le> usageOf reg1 n + (if n \<in> set (map fst reg) then directReferences n ms else 0)"
            using r1(4) by simp
          have b: "usageOf reg1 n + (if n \<in> set (map fst reg) then directReferences n ms else 0)
              \<le> usageOf reg' n"
            using r(4) unfolding names1 by blast
          from step [of n] a b show ?thesis by linarith
        qed
        have eq: "countLoop recur (m # ms) reg vis = countLoop recur ms reg1 vis1"
          using \<open>group m 1 = Some varName\<close> Some False r1(1) by (simp add: Let_def)
        show ?thesis
        proof (intro exI conjI allI)
          show "countLoop recur (m # ms) reg vis = Some (reg', vis')"
            unfolding eq by (rule r(1))
          show "map fst reg' = map fst reg"
            using r(2) unfolding names1 .
          show "vis \<subseteq> vis'" using r1(3) r(3) by blast
          show "usageOf reg n + (if n \<in> set (map fst reg) then directReferences n (m # ms) else 0)
            \<le> usageOf reg' n" for n by (rule bound)
        qed
      qed
    qed
  qed
qed

lemma countVariableUsage_returns:
  "card (set (map fst reg) - vis) < fuel \<Longrightarrow>
    \<exists>reg' vis'. countVariableUsage fuel code reg vis = Some (reg', vis')
       \<and> map fst reg' = map fst reg \<and> vis \<subseteq> vis'
       \<and> (\<forall>n. usageOf reg n
               + (if n \<in> set (map fst reg) then directReferences n (matchAll VAR_REF_REGEX code) else 0)
              \<le> usageOf reg' n)"
proof (induction fuel arbitrary: code reg vis)
  case 0
  then show ?case by simp
next
  case (Suc fuel)
  have "counts fuel (countVariableUsage fuel)"
    unfolding counts_def
  proof (intro allI impI)
    fix code :: string and reg :: registry and vis :: "string set"
    assume "card (set (map fst reg) - vis) < fuel"
    from Suc.IH [OF this, of code] obtain reg' vis' where
      "countVariableUsage fuel code reg vis = Some (reg', vis')" "map fst reg' = map fst reg"
      "vis \<subseteq> vis'"
      "\<forall>n. usageOf reg n
           + (if n \<in> set (map fst reg) then directReferences n (matchAll VAR_REF_REGEX code) else 0)
           \<le> usageOf reg' n"
      by blast
    moreover from this(4) have "\<forall>n. usageOf reg n \<le> usageOf reg' n"
      using add_leD1 by blast
    ultimately show "\<exists>reg' vis'. countVariableUsage fuel code reg vis = Some (reg', vis')
        \<and> map fst reg' = map fst reg \<and> vis \<subseteq> vis' \<and> (\<forall>n. usageOf reg n \<le> usageOf reg' n)"
      by blast
  qed
  moreover have "card (set (map fst reg) - vis) \<le> fuel"
    using Suc.prems by simp
  ultimately show ?case
    using countLoop_returns [of fuel "countVariableUsage fuel" reg vis "matchAll VAR_REF_REGEX code"]
    by simp
qed


lemma map_fst_markVariablesSetElsewhere:
  "map fst (markVariablesSetElsewhere code reg) = map fst reg"
  by (induction reg) (auto simp: markVariablesSetElsewhere_def Let_def)

lemma markVariablesSetElsewhere_map:
  "markVariablesSetElsewhere code reg
   = map (\<lambda>(k, v). (k, if regexTest (setRegex k) (blankTokensLayers code)
                          then v\<lparr>setElsewhere := True\<rparr> else v)) reg"
  by (induction reg) (auto simp: markVariablesSetElsewhere_def Let_def)

lemma usageOf_markVariablesSetElsewhere:
  "usageOf (markVariablesSetElsewhere code reg) n = usageOf reg n"
  unfolding markVariablesSetElsewhere_map
  by (induction reg) (auto simp: usageOf_def registryGet_def)

lemma analyze_returns:
  "\<exists>reg'. analyze codes reg = Some reg' \<and> map fst reg' = map fst reg
     \<and> (\<forall>n. usageOf reg n
             + (if n \<in> set (map fst reg)
                then sum_list (map (\<lambda>code. directReferences n (matchAll VAR_REF_REGEX code)) codes)
                else 0)
            \<le> usageOf reg' n)"
proof (induction codes arbitrary: reg)
  case Nil
  show ?case by simp
next
  case (Cons code codes)
  let ?marked = "markVariablesSetElsewhere code reg"
  have names: "map fst ?marked = map fst reg"
    by (rule map_fst_markVariablesSetElsewhere)
  have "card (set (map fst ?marked) - {}) \<le> length (map fst ?marked)"
    by (simp only: Diff_empty card_length)
  then have "card (set (map fst ?marked) - {}) < Suc (length reg)"
    unfolding names by simp
  from countVariableUsage_returns [OF this, of code] obtain reg1 vis1 where
    r1: "countVariableUsage (Suc (length reg)) code ?marked {} = Some (reg1, vis1)"
      "map fst reg1 = map fst ?marked"
      "\<forall>n. usageOf ?marked n
           + (if n \<in> set (map fst ?marked)
              then directReferences n (matchAll VAR_REF_REGEX code) else 0)
           \<le> usageOf reg1 n"
    by blast
  have names1: "map fst reg1 = map fst reg"
    using r1(2) unfolding names .
  from Cons.IH [of reg1] obtain reg' where
    r: "analyze codes reg1 = Some reg'" "map fst reg' = map fst reg1"
      "\<forall>n. usageOf reg1 n
           + (if n \<in> set (map fst reg1)
              then sum_list (map (\<lambda>code. directReferences n (matchAll VAR_REF_REGEX code)) codes)
              else 0)
           \<le> usageOf reg' n"
    by blast
  have bound: "usageOf reg n
       + (if n \<in> set (map fst reg)
          then sum_list (map (\<lambda>code. directReferences n (matchAll VAR_REF_REGEX code)) (code # codes))
          else 0)
      \<le> usageOf reg' n" for n
  proof -
    have a: "usageOf reg n
         + (if n \<in> set (map fst reg) then directReferences n (matchAll VAR_REF_REGEX code) else 0)
        \<le> usageOf reg1 n"
      using r1(3) unfolding names usageOf_markVariablesSetElsewhere by blast
    have b: "usageOf reg1 n
         + (if n \<in> set (map fst reg)
            then sum_list (map (\<lambda>code. directReferences n (matchAll VAR_REF_REGEX code)) codes)
            else 0)
        \<le> usageOf reg' n"
      using r(3) unfolding names1 by blast
    from a b show ?thesis by (simp split: if_splits)
  qed
  have eq: "analyze (code # codes) reg = analyze codes reg1"
    using r1(1) by simp
  show ?case
  proof (intro exI conjI allI)
    show "analyze (code # codes) reg = Some reg'"
      unfolding eq by (rule r(1))
    show "map fst reg' = map fst reg"
      using r(2) unfolding names1 .
    show "usageOf reg n
       + (if n \<in> set (map fst reg)
          then sum_list (map (\<lambda>code. directReferences n (matchAll VAR_REF_REGEX code)) (code # codes))
          else 0)
      \<le> usageOf reg' n" for n by (rule bound)
  qed
qed

lemma usageOf_registryUpdate_same:
  assumes "\<And>t. usageCount (f t) = usageCount t"
  shows "usageOf (registryUpdate v f reg) k = usageOf reg k"
  using assms by (auto simp: usageOf_def registryGet_registryUpdate split: option.splits)

lemma usageOf_fold_registryUpdate:
  assumes "\<And>v t. usageCount (f v t) = usageCount t"
  shows "usageOf (fold (\<lambda>vName. registryUpdate vName (f vName)) varNames reg) k = usageOf reg k"
  using assms by (induction varNames arbitrary: reg) (simp_all add: usageOf_registryUpdate_same)

lemma map_fst_fold_registryUpdate:
  "map fst (fold (\<lambda>vName. registryUpdate vName (f vName)) varNames reg) = map fst reg"
  by (induction varNames arbitrary: reg) (simp_all add: map_fst_registryUpdate)

lemma usageOf_decideGroup:
  "usageOf (fst (decideGroup manglePrefix grp st)) k = usageOf (fst st) k"
  by (cases grp; cases st) (simp add: decideGroup_def Let_def usageOf_fold_registryUpdate)

lemma map_fst_decideGroup:
  "map fst (fst (decideGroup manglePrefix grp st)) = map fst (fst st)"
  by (cases grp; cases st) (simp add: decideGroup_def Let_def map_fst_fold_registryUpdate)

lemma usageOf_generateMangledNames:
  "usageOf (fst (generateMangledNames reg manglePrefix)) k = usageOf reg k"
proof -
  have "usageOf (fst (fold (decideGroup manglePrefix) gs st)) k = usageOf (fst st) k" for gs st
    by (induction gs arbitrary: st) (simp_all add: usageOf_decideGroup)
  then show ?thesis by (simp add: generateMangledNames_def)
qed

lemma map_fst_generateMangledNames:
  "map fst (fst (generateMangledNames reg manglePrefix)) = map fst reg"
proof -
  have "map fst (fst (fold (decideGroup manglePrefix) gs st)) = map fst (fst st)" for gs st
    by (induction gs arbitrary: st) (simp_all add: map_fst_decideGroup)
  then show ?thesis by (simp add: generateMangledNames_def)
qed

lemma cycle_counted:
  "countVariableUsage 3 ''x{y:var(--a)}''
     [(''--a'', \<lparr>tokenValue = ''var(--b)'', usageCount = 0, setElsewhere = False,
         mangledName = None, isAlias = Some True, emitDeclaration = False\<rparr>),
      (''--b'', \<lparr>tokenValue = ''var(--a)'', usageCount = 0, setElsewhere = False,
         mangledName = None, isAlias = Some True, emitDeclaration = False\<rparr>)] {}
   = Some ([(''--a'', \<lparr>tokenValue = ''var(--b)'', usageCount = 2, setElsewhere = False,
         mangledName = None, isAlias = Some True, emitDeclaration = False\<rparr>),
      (''--b'', \<lparr>tokenValue = ''var(--a)'', usageCount = 1, setElsewhere = False,
         mangledName = None, isAlias = Some True, emitDeclaration = False\<rparr>)], {''--a'', ''--b''})"
  by code_simp

lemma cycle_resolved:
  "resolveVariableValue (Some ''--a'')
     [(''--a'', \<lparr>tokenValue = ''var(--b)'', usageCount = 0, setElsewhere = False,
         mangledName = None, isAlias = Some True, emitDeclaration = False\<rparr>),
      (''--b'', \<lparr>tokenValue = ''var(--a)'', usageCount = 0, setElsewhere = False,
         mangledName = None, isAlias = Some True, emitDeclaration = False\<rparr>)] 0
   = ''var(--b)''"
  by code_simp

lemma two_references:
  "matchAll VAR_REF_REGEX ''x{y:var(--a);z:var(--a)}''
   = [\<lparr>index = 4, matched = ''var(--a)'', groups = [(1, ''--a'')]\<rparr>,
      \<lparr>index = 15, matched = ''var(--a)'', groups = [(1, ''--a'')]\<rparr>]"
  by code_simp

lemma two_references_count:
  "directReferences ''--a'' (matchAll VAR_REF_REGEX ''x{y:var(--a);z:var(--a)}'') = 2"
  by (simp add: two_references directReferences_def group_def)

lemma visited_counted:
  "countVariableUsage 1 ''x{y:var(--a);z:var(--a)}''
     [(''--a'', \<lparr>tokenValue = ''1'', usageCount = 0, setElsewhere = False,
         mangledName = None, isAlias = Some False, emitDeclaration = False\<rparr>)] {''--a''}
   = Some ([(''--a'', \<lparr>tokenValue = ''1'', usageCount = 2, setElsewhere = False,
         mangledName = None, isAlias = Some False, emitDeclaration = False\<rparr>)], {''--a''})"
  by code_simp

lemma visited_analyzed:
  "analyze [''x{y:var(--a);z:var(--a)}'']
     [(''--a'', \<lparr>tokenValue = ''1'', usageCount = 0, setElsewhere = False,
         mangledName = None, isAlias = Some False, emitDeclaration = False\<rparr>)]
   = Some [(''--a'', \<lparr>tokenValue = ''1'', usageCount = 2, setElsewhere = False,
         mangledName = None, isAlias = Some False, emitDeclaration = False\<rparr>)]"
  by code_simp

lemma visited_decided:
  "generateMangledNames
     [(''--a'', \<lparr>tokenValue = ''1'', usageCount = 2, setElsewhere = False,
         mangledName = None, isAlias = Some False, emitDeclaration = False\<rparr>)] ''--_''
   = ([(''--a'', \<lparr>tokenValue = ''1'', usageCount = 2, setElsewhere = False,
         mangledName = None, isAlias = Some False, emitDeclaration = False\<rparr>)], 0)"
  by code_simp

text \<open>
  Claim C8. Value resolution terminates on every name, registry and depth: every input is
  in the domain of the recursion, whose calls go from a depth of at most 10 to the next
  depth. Usage counting returns on every text, registry and visited set when the depth of
  its calls may reach the number of registered names plus one: a call is only made for a
  registered name that is not yet visited, and that name is visited from then on. So the
  analysis of all files and the whole pass return as well, cyclic registries included.
\<close>

theorem analysis_terminates:
  "resolveVariableValue_dom (varName, registry, depth)
   \<and> (\<exists>registry' visited'.
        countVariableUsage (Suc (length registry)) code registry visited = Some (registry', visited'))
   \<and> (\<exists>analyzed. analyze codes registry = Some analyzed)
   \<and> (\<exists>result. generateBundle manglePrefix bundle = Some result)"
proof (intro conjI)
  show "resolveVariableValue_dom (varName, registry, depth)"
    by (rule resolve_total)
  have "card (set (map fst registry) - visited) \<le> card (set (map fst registry))"
    by (intro card_mono) auto
  also have "\<dots> \<le> length (map fst registry)"
    by (rule card_length)
  finally have "card (set (map fst registry) - visited) < Suc (length registry)"
    by simp
  from countVariableUsage_returns [OF this, of code]
  show "\<exists>registry' visited'.
      countVariableUsage (Suc (length registry)) code registry visited = Some (registry', visited')"
    by blast
  show "\<exists>analyzed. analyze codes registry = Some analyzed"
    using analyze_returns [of codes registry] by blast
  show "\<exists>result. generateBundle manglePrefix bundle = Some result"
    using analyze_returns
      [of "map (\<lambda>(name, asset). source asset) (filter isCssAsset bundle)"
        "resetUsageCounts (fold (\<lambda>(name, asset). extractTokensVariables (source asset))
           (filter isCssAsset bundle) [])"]
    by (auto simp: generateBundle_def Let_def)
qed

text \<open>Two variables that refer to each other.\<close>

theorem analysis_terminates_witness:
  "resolveVariableValue_dom (Some ''--a'',
     [(''--a'', \<lparr>tokenValue = ''var(--b)'', usageCount = 0, setElsewhere = False,
         mangledName = None, isAlias = Some True, emitDeclaration = False\<rparr>),
      (''--b'', \<lparr>tokenValue = ''var(--a)'', usageCount = 0, setElsewhere = False,
         mangledName = None, isAlias = Some True, emitDeclaration = False\<rparr>)], 0)
   \<and> resolveVariableValue (Some ''--a'')
     [(''--a'', \<lparr>tokenValue = ''var(--b)'', usageCount = 0, setElsewhere = False,
         mangledName = None, isAlias = Some True, emitDeclaration = False\<rparr>),
      (''--b'', \<lparr>tokenValue = ''var(--a)'', usageCount = 0, setElsewhere = False,
         mangledName = None, isAlias = Some True, emitDeclaration = False\<rparr>)] 0
     = ''var(--b)''
   \<and> countVariableUsage 3 ''x{y:var(--a)}''
     [(''--a'', \<lparr>tokenValue = ''var(--b)'', usageCount = 0, setElsewhere = False,
         mangledName = None, isAlias = Some True, emitDeclaration = False\<rparr>),
      (''--b'', \<lparr>tokenValue = ''var(--a)'', usageCount = 0, setElsewhere = False,
         mangledName = None, isAlias = Some True, emitDeclaration = False\<rparr>)] {}
     = Some ([(''--a'', \<lparr>tokenValue = ''var(--b)'', usageCount = 2, setElsewhere = False,
         mangledName = None, isAlias = Some True, emitDeclaration = False\<rparr>),
      (''--b'', \<lparr>tokenValue = ''var(--a)'', usageCount = 1, setElsewhere = False,
         mangledName = None, isAlias = Some True, emitDeclaration = False\<rparr>)], {''--a'', ''--b''})"
  using analysis_terminates [of "Some ''--a''"
      "[(''--a'', \<lparr>tokenValue = ''var(--b)'', usageCount = 0, setElsewhere = False,
         mangledName = None, isAlias = Some True, emitDeclaration = False\<rparr>),
      (''--b'', \<lparr>tokenValue = ''var(--a)'', usageCount = 0, setElsewhere = False,
         mangledName = None, isAlias = Some True, emitDeclaration = False\<rparr>)]" 0 "''x{y:var(--a)}''" "{}" "[]" "''--_''" "[]"]
    cycle_counted cycle_resolved
  by blast

text \<open>
  Claim C10. For a registered name, usage counting over a text raises the usage count by
  at least the number of direct reference occurrences of the name in the text, whatever the
  visited set is at the start (the name may be in it). So a registered name with a direct
  reference occurrence in one of the analysed files ends the analysis, and the decision
  engine after it, with a usage count above 0: the transformer's test for unused variables
  does not drop it.
\<close>

theorem direct_reference_counted:
  assumes "registryGet registry n = Some t"
  shows "(card (set (map fst registry) - visited) < fuel \<longrightarrow>
           (\<exists>registry' visited'.
              countVariableUsage fuel code registry visited = Some (registry', visited')
              \<and> usageOf registry n + directReferences n (matchAll VAR_REF_REGEX code)
                  \<le> usageOf registry' n))
       \<and> (code \<in> set codes \<longrightarrow> 0 < directReferences n (matchAll VAR_REF_REGEX code) \<longrightarrow>
           (\<exists>analyzed variable.
              analyze codes registry = Some analyzed
              \<and> registryGet (fst (generateMangledNames analyzed manglePrefix)) n = Some variable
              \<and> 0 < usageCount variable))"
proof (intro conjI impI)
  have inreg: "n \<in> set (map fst registry)"
    using registered_iff [of registry n] assms by simp
  {
    assume "card (set (map fst registry) - visited) < fuel"
    from countVariableUsage_returns [OF this, of code] inreg
    show "\<exists>registry' visited'.
        countVariableUsage fuel code registry visited = Some (registry', visited')
        \<and> usageOf registry n + directReferences n (matchAll VAR_REF_REGEX code)
            \<le> usageOf registry' n"
      by (metis (full_types))
  }
  {
    assume code: "code \<in> set codes"
      and pos: "0 < directReferences n (matchAll VAR_REF_REGEX code)"
    from analyze_returns [of codes registry] obtain analyzed where
      a: "analyze codes registry = Some analyzed" "map fst analyzed = map fst registry"
        "\<forall>n. usageOf registry n
             + (if n \<in> set (map fst registry)
                then sum_list (map (\<lambda>code. directReferences n (matchAll VAR_REF_REGEX code)) codes)
                else 0)
            \<le> usageOf analyzed n"
      by blast
    have "directReferences n (matchAll VAR_REF_REGEX code)
        \<le> sum_list (map (\<lambda>code. directReferences n (matchAll VAR_REF_REGEX code)) codes)"
      using code by (simp add: member_le_sum_list)
    then have "0 < sum_list (map (\<lambda>code. directReferences n (matchAll VAR_REF_REGEX code)) codes)"
      using pos by linarith
    then have "0 < usageOf analyzed n"
      using a(3) inreg by (metis add_pos_nonneg gr0I le_zero_eq not_gr_zero add_is_0)
    then have "0 < usageOf (fst (generateMangledNames analyzed manglePrefix)) n"
      by (simp add: usageOf_generateMangledNames)
    then show "\<exists>analyzed variable.
        analyze codes registry = Some analyzed
        \<and> registryGet (fst (generateMangledNames analyzed manglePrefix)) n = Some variable
        \<and> 0 < usageCount variable"
      using a(1) by (auto simp: usageOf_def split: option.splits)
  }
qed

text \<open>Two references to a name that is already visited: both are counted.\<close>

theorem direct_reference_counted_witness:
  "directReferences ''--a'' (matchAll VAR_REF_REGEX ''x{y:var(--a);z:var(--a)}'') = 2
   \<and> countVariableUsage 1 ''x{y:var(--a);z:var(--a)}''
       [(''--a'', \<lparr>tokenValue = ''1'', usageCount = 0, setElsewhere = False,
         mangledName = None, isAlias = Some False, emitDeclaration = False\<rparr>)] {''--a''}
     = Some ([(''--a'', \<lparr>tokenValue = ''1'', usageCount = 2, setElsewhere = False,
         mangledName = None, isAlias = Some False, emitDeclaration = False\<rparr>)], {''--a''})
   \<and> analyze [''x{y:var(--a);z:var(--a)}'']
       [(''--a'', \<lparr>tokenValue = ''1'', usageCount = 0, setElsewhere = False,
         mangledName = None, isAlias = Some False, emitDeclaration = False\<rparr>)]
     = Some [(''--a'', \<lparr>tokenValue = ''1'', usageCount = 2, setElsewhere = False,
         mangledName = None, isAlias = Some False, emitDeclaration = False\<rparr>)]
   \<and> generateMangledNames
       [(''--a'', \<lparr>tokenValue = ''1'', usageCount = 2, setElsewhere = False,
         mangledName = None, isAlias = Some False, emitDeclaration = False\<rparr>)] ''--_''
     = ([(''--a'', \<lparr>tokenValue = ''1'', usageCount = 2, setElsewhere = False,
         mangledName = None, isAlias = Some False, emitDeclaration = False\<rparr>)], 0)"
  using direct_reference_counted [of
      "[(''--a'', \<lparr>tokenValue = ''1'', usageCount = 0, setElsewhere = False,
         mangledName = None, isAlias = Some False, emitDeclaration = False\<rparr>)]" "''--a''"
      "\<lparr>tokenValue = ''1'', usageCount = 0, setElsewhere = False,
         mangledName = None, isAlias = Some False, emitDeclaration = False\<rparr>" "{''--a''}" 1 "''x{y:var(--a);z:var(--a)}''"
      "[''x{y:var(--a);z:var(--a)}'']" "''--_''"]
    two_references_count visited_counted visited_analyzed visited_decided
  by blast

end
